theory Spec2Isabelle
  imports Main "HOL-Library.Char_ord" "HOL-Library.List_Lexorder" "HOL-Library.Product_Lexorder"
begin

section \<open>The host's Date object\<close>

text \<open>
  \<^verbatim>\<open>calendar.js\<close> computes the length of a month and the weekday of its first day with
  the built-in \<^verbatim>\<open>Date\<close>. The definitions of this section follow the abstract operations
  of ECMA-262 (section "Date Objects") on integer time values: milliseconds since
  1970-01-01T00:00:00Z. Every argument the calendar passes is an integer, so the double
  arithmetic of the host is exact here and \<open>int\<close> stands for it. An invalid date (the
  time value NaN) is \<open>None\<close>.

  The local time zone is a parameter \<open>tza\<close>: the offset of local time from UTC in
  milliseconds, taken as fixed (no daylight-saving transition is modelled).
\<close>

definition msPerDay :: int where
  "msPerDay = 86400000"

definition Day :: "int \<Rightarrow> int" where
  "Day t = t div msPerDay"

definition DaysInYear :: "int \<Rightarrow> int" where
  "DaysInYear y =
     (if y mod 4 \<noteq> 0 then 365
      else if y mod 100 \<noteq> 0 then 366
      else if y mod 400 \<noteq> 0 then 365
      else 366)"

definition DayFromYear :: "int \<Rightarrow> int" where
  "DayFromYear y =
     365 * (y - 1970) + (y - 1969) div 4 - (y - 1901) div 100 + (y - 1601) div 400"

definition TimeFromYear :: "int \<Rightarrow> int" where
  "TimeFromYear y = msPerDay * DayFromYear y"

lemma div_step:
  fixes z k :: int
  assumes "0 < k"
  shows "z div k = (z - 1) div k + (if z mod k = 0 then 1 else 0)"
proof (cases "z mod k = 0")
  case True
  have "z - 1 = k * (z div k - 1) + (k - 1)"
    using True mult_div_mod_eq [of k z] by (simp add: algebra_simps)
  then have "(z - 1) div k = z div k - 1"
    using assms int_div_pos_eq [of "z - 1" k "z div k - 1" "k - 1"] by simp
  with True show ?thesis by simp
next
  case False
  then have "0 < z mod k"
    using assms pos_mod_sign [of k z] by linarith
  have "z - 1 = k * (z div k) + (z mod k - 1)"
    using mult_div_mod_eq [of k z] by simp
  moreover have "0 \<le> z mod k - 1"
    using \<open>0 < z mod k\<close> by linarith
  moreover have "z mod k - 1 < k"
    using pos_mod_bound [of k z] assms by linarith
  ultimately have "(z - 1) div k = z div k"
    by (rule int_div_pos_eq)
  with False show ?thesis by simp
qed

lemma div4_step:
  "(y + 1 - 1969) div 4 = (y - 1969) div 4 + (if y mod 4 = 0 then 1 else 0)" for y :: int
proof -
  have "(y - 1968) mod 4 = y mod 4"
    using mod_diff_eq [of y 4 1968] by simp
  with div_step [of 4 "y - 1968"] show ?thesis by (simp add: algebra_simps)
qed

lemma div100_step:
  "(y + 1 - 1901) div 100 = (y - 1901) div 100 + (if y mod 100 = 0 then 1 else 0)" for y :: int
proof -
  have "(y - 1900) mod 100 = y mod 100"
    using mod_diff_eq [of y 100 1900] by simp
  with div_step [of 100 "y - 1900"] show ?thesis by (simp add: algebra_simps)
qed

lemma div400_step:
  "(y + 1 - 1601) div 400 = (y - 1601) div 400 + (if y mod 400 = 0 then 1 else 0)" for y :: int
proof -
  have "(y - 1600) mod 400 = y mod 400"
    using mod_diff_eq [of y 400 1600] by simp
  with div_step [of 400 "y - 1600"] show ?thesis by (simp add: algebra_simps)
qed

lemma mod100_mod4: "y mod 100 = 0 \<Longrightarrow> y mod 4 = 0" for y :: int
  using mod_mod_cancel [of 4 100 y] by simp

lemma mod400_mod100: "y mod 400 = 0 \<Longrightarrow> y mod 100 = 0" for y :: int
  using mod_mod_cancel [of 100 400 y] by simp

lemma DayFromYear_step: "DayFromYear (y + 1) = DayFromYear y + DaysInYear y"
proof -
  have "DayFromYear (y + 1) =
      365 * (y + 1 - 1970) + (y + 1 - 1969) div 4 - (y + 1 - 1901) div 100
        + (y + 1 - 1601) div 400"
    unfolding DayFromYear_def ..
  also have "\<dots> = DayFromYear y + 365 + (if y mod 4 = 0 then 1 else 0)
      - (if y mod 100 = 0 then 1 else 0) + (if y mod 400 = 0 then 1 else 0)"
    unfolding div4_step div100_step div400_step DayFromYear_def by (simp add: algebra_simps)
  also have "\<dots> = DayFromYear y + DaysInYear y"
    using mod100_mod4 [of y] mod400_mod100 [of y] unfolding DaysInYear_def by auto
  finally show ?thesis .
qed

lemma DaysInYear_pos: "365 \<le> DaysInYear y"
  unfolding DaysInYear_def by simp

lemma TimeFromYear_step: "TimeFromYear (y + 1) = TimeFromYear y + msPerDay * DaysInYear y"
  by (simp add: TimeFromYear_def DayFromYear_step distrib_left)

lemma TimeFromYear_less_step: "TimeFromYear y < TimeFromYear (y + 1)"
proof -
  have "0 < msPerDay * DaysInYear y"
    using DaysInYear_pos [of y] by (simp add: msPerDay_def)
  then show ?thesis by (simp add: TimeFromYear_step)
qed

text \<open>
  \<open>YearFromTime t\<close> is the largest year \<open>y\<close> with \<open>TimeFromYear y \<le> t\<close>. The search
  walks from a first guess down or up to that year.
\<close>

function year_search :: "int \<Rightarrow> int \<Rightarrow> int" where
  "year_search y t =
     (if t < TimeFromYear y then year_search (y - 1) t
      else if TimeFromYear (y + 1) \<le> t then year_search (y + 1) t
      else y)"
  by pat_completeness auto
termination
proof (relation "measure (\<lambda>(y, t).
    if t < TimeFromYear y then nat (TimeFromYear y - t)
    else if TimeFromYear (y + 1) \<le> t then nat (t - TimeFromYear (y + 1)) + 1
    else 0)")
  show "wf (measure (\<lambda>(y, t).
    if t < TimeFromYear y then nat (TimeFromYear y - t)
    else if TimeFromYear (y + 1) \<le> t then nat (t - TimeFromYear (y + 1)) + 1
    else 0))"
    by simp
next
  fix y t :: int
  assume "t < TimeFromYear y"
  moreover have "TimeFromYear (y - 1) < TimeFromYear y"
    using TimeFromYear_less_step [of "y - 1"] by simp
  ultimately show "((y - 1, t), (y, t)) \<in> measure (\<lambda>(y, t).
    if t < TimeFromYear y then nat (TimeFromYear y - t)
    else if TimeFromYear (y + 1) \<le> t then nat (t - TimeFromYear (y + 1)) + 1
    else 0)"
    by auto
next
  fix y t :: int
  assume "\<not> t < TimeFromYear y" and "TimeFromYear (y + 1) \<le> t"
  moreover have "TimeFromYear (y + 1) < TimeFromYear (y + 1 + 1)"
    by (rule TimeFromYear_less_step)
  ultimately show "((y + 1, t), (y, t)) \<in> measure (\<lambda>(y, t).
    if t < TimeFromYear y then nat (TimeFromYear y - t)
    else if TimeFromYear (y + 1) \<le> t then nat (t - TimeFromYear (y + 1)) + 1
    else 0)"
    by auto
qed

definition YearFromTime :: "int \<Rightarrow> int" where
  "YearFromTime t = year_search (1970 + Day t div 365) t"

definition InLeapYear :: "int \<Rightarrow> int" where
  "InLeapYear t = (if DaysInYear (YearFromTime t) = 366 then 1 else 0)"

definition DayWithinYear :: "int \<Rightarrow> int" where
  "DayWithinYear t = Day t - DayFromYear (YearFromTime t)"

definition MonthFromTime :: "int \<Rightarrow> int" where
  "MonthFromTime t =
     (let d = DayWithinYear t; L = InLeapYear t in
      if d < 31 then 0
      else if d < 59 + L then 1
      else if d < 90 + L then 2
      else if d < 120 + L then 3
      else if d < 151 + L then 4
      else if d < 181 + L then 5
      else if d < 212 + L then 6
      else if d < 243 + L then 7
      else if d < 273 + L then 8
      else if d < 304 + L then 9
      else if d < 334 + L then 10
      else 11)"

definition DateFromTime :: "int \<Rightarrow> int" where
  "DateFromTime t =
     (let d = DayWithinYear t; L = InLeapYear t; m = MonthFromTime t in
      if m = 0 then d + 1
      else if m = 1 then d - 30
      else if m = 2 then d - 58 - L
      else if m = 3 then d - 89 - L
      else if m = 4 then d - 119 - L
      else if m = 5 then d - 150 - L
      else if m = 6 then d - 180 - L
      else if m = 7 then d - 211 - L
      else if m = 8 then d - 242 - L
      else if m = 9 then d - 272 - L
      else if m = 10 then d - 303 - L
      else d - 333 - L)"

definition WeekDay :: "int \<Rightarrow> int" where
  "WeekDay t = (Day t + 4) mod 7"

definition MakeTime :: "int \<Rightarrow> int \<Rightarrow> int \<Rightarrow> int \<Rightarrow> int" where
  "MakeTime hour minute sec ms = hour * 3600000 + minute * 60000 + sec * 1000 + ms"

text \<open>
  The day within a year on which month \<open>mn\<close> begins, \<open>L\<close> being 1 in a leap year and 0
  otherwise: the lower bounds of the table of \<open>MonthFromTime\<close>.
\<close>

definition MonthStartDay :: "int \<Rightarrow> int \<Rightarrow> int" where
  "MonthStartDay mn L =
     (if mn = 0 then 0
      else if mn = 1 then 31
      else if mn = 2 then 59 + L
      else if mn = 3 then 90 + L
      else if mn = 4 then 120 + L
      else if mn = 5 then 151 + L
      else if mn = 6 then 181 + L
      else if mn = 7 then 212 + L
      else if mn = 8 then 243 + L
      else if mn = 9 then 273 + L
      else if mn = 10 then 304 + L
      else 334 + L)"

text \<open>
  \<open>MakeDay\<close> carries months beyond 0..11 into the year, finds the time value \<open>t\<close> of the
  first day of month \<open>mn\<close> of year \<open>ym\<close> and returns \<open>Day t + date - 1\<close>. ECMA-262
  characterises \<open>t\<close> by \<open>YearFromTime t = ym\<close>, \<open>MonthFromTime t = mn\<close> and
  \<open>DateFromTime t = 1\<close>; lemma \<open>MakeDay_first_of_month\<close> below shows that the time
  computed here is such a \<open>t\<close>.
\<close>

definition MakeDay :: "int \<Rightarrow> int \<Rightarrow> int \<Rightarrow> int" where
  "MakeDay year month date =
     (let ym = year + month div 12;
          mn = month mod 12;
          t = msPerDay * (DayFromYear ym + MonthStartDay mn (if DaysInYear ym = 366 then 1 else 0))
      in Day t + date - 1)"

definition MakeDate :: "int \<Rightarrow> int \<Rightarrow> int" where
  "MakeDate day time = day * msPerDay + time"

definition TimeClip :: "int \<Rightarrow> int option" where
  "TimeClip t = (if 8640000000000000 < \<bar>t\<bar> then None else Some t)"

definition LocalTime :: "int \<Rightarrow> int \<Rightarrow> int" where
  "LocalTime tza t = t + tza"

definition UTC :: "int \<Rightarrow> int \<Rightarrow> int" where
  "UTC tza t = t - tza"

definition MakeFullYear :: "int \<Rightarrow> int" where
  "MakeFullYear year = (if 0 \<le> year \<and> year \<le> 99 then 1900 + year else year)"

text \<open>\<^verbatim>\<open>new Date(year, month, date)\<close>: the time of day is 0.\<close>

definition new_Date :: "int \<Rightarrow> int \<Rightarrow> int \<Rightarrow> int \<Rightarrow> int option" where
  "new_Date tza year month date =
     TimeClip (UTC tza (MakeDate (MakeDay (MakeFullYear year) month date) (MakeTime 0 0 0 0)))"

definition getDate :: "int \<Rightarrow> int option \<Rightarrow> int option" where
  "getDate tza dv = (case dv of None \<Rightarrow> None | Some t \<Rightarrow> Some (DateFromTime (LocalTime tza t)))"

definition getDay :: "int \<Rightarrow> int option \<Rightarrow> int option" where
  "getDay tza dv = (case dv of None \<Rightarrow> None | Some t \<Rightarrow> Some (WeekDay (LocalTime tza t)))"

section \<open>calendar.js: the date grid\<close>

text \<open>
  \<^verbatim>\<open>function getDaysInMonth(month, year) { return new Date(year, month + 1, 0).getDate(); }\<close>
\<close>

definition getDaysInMonth :: "int \<Rightarrow> int \<Rightarrow> int \<Rightarrow> int option" where
  "getDaysInMonth tza month year = getDate tza (new_Date tza year (month + 1) 0)"

text \<open>
  \<^verbatim>\<open>function getFirstDayOfMonth(month, year) { return new Date(year, month, 1).getDay(); }\<close>
\<close>

definition getFirstDayOfMonth :: "int \<Rightarrow> int \<Rightarrow> int \<Rightarrow> int option" where
  "getFirstDayOfMonth tza month year = getDay tza (new_Date tza year month 1)"

subsection \<open>The year and the day of a time value\<close>

lemma DayFromYear_mono: "y \<le> y' \<Longrightarrow> DayFromYear y \<le> DayFromYear y'"
proof (induction y' rule: int_ge_induct)
  case base
  show ?case by simp
next
  case (step i)
  then show ?case
    using DaysInYear_pos [of i] by (simp add: DayFromYear_step)
qed

lemma DayFromYear_less: "y < y' \<Longrightarrow> DayFromYear y < DayFromYear y'"
proof -
  assume "y < y'"
  then have "DayFromYear (y + 1) \<le> DayFromYear y'"
    by (intro DayFromYear_mono) simp
  then show ?thesis
    using DaysInYear_pos [of y] by (simp add: DayFromYear_step)
qed

lemma TimeFromYear_mono: "y \<le> y' \<Longrightarrow> TimeFromYear y \<le> TimeFromYear y'"
  by (simp add: TimeFromYear_def msPerDay_def DayFromYear_mono)

lemma year_search_eq:
  "TimeFromYear y \<le> t \<Longrightarrow> t < TimeFromYear (y + 1) \<Longrightarrow> year_search y0 t = y"
proof (induction y0 t rule: year_search.induct)
  case (1 y0 t)
  show ?case
  proof (cases "t < TimeFromYear y0")
    case True
    with 1 show ?thesis by (subst year_search.simps) simp
  next
    case above: False
    show ?thesis
    proof (cases "TimeFromYear (y0 + 1) \<le> t")
      case True
      with above 1 show ?thesis by (subst year_search.simps) simp
    next
      case False
      have "\<not> y0 < y"
      proof
        assume "y0 < y"
        then have "TimeFromYear (y0 + 1) \<le> TimeFromYear y"
          by (intro TimeFromYear_mono) simp
        with 1(3) False show False by simp
      qed
      moreover have "\<not> y < y0"
      proof
        assume "y < y0"
        then have "TimeFromYear (y + 1) \<le> TimeFromYear y0"
          by (intro TimeFromYear_mono) simp
        with 1(4) above show False by simp
      qed
      ultimately have "y0 = y" by simp
      with above False show ?thesis by (subst year_search.simps) simp
    qed
  qed
qed

lemma Day_of_day: "0 \<le> r \<Longrightarrow> r < msPerDay \<Longrightarrow> Day (msPerDay * d + r) = d"
  unfolding Day_def using int_div_pos_eq [of "msPerDay * d + r" msPerDay d r] by simp

lemma YearFromTime_in_year:
  assumes "0 \<le> k" "k < DaysInYear y" "0 \<le> r" "r < msPerDay"
  shows "YearFromTime (msPerDay * (DayFromYear y + k) + r) = y"
proof -
  have "0 < msPerDay" by (simp add: msPerDay_def)
  have "TimeFromYear y \<le> msPerDay * (DayFromYear y + k) + r"
    using assms \<open>0 < msPerDay\<close> by (simp add: TimeFromYear_def distrib_left)
  moreover have "msPerDay * (k + 1) \<le> msPerDay * DaysInYear y"
    using assms \<open>0 < msPerDay\<close> by (intro mult_left_mono) simp_all
  then have "msPerDay * (DayFromYear y + k) + r < TimeFromYear (y + 1)"
    using assms unfolding TimeFromYear_def DayFromYear_step by (simp add: distrib_left)
  ultimately show ?thesis
    unfolding YearFromTime_def by (rule year_search_eq)
qed

subsection \<open>The Gregorian calendar, as the specification words it\<close>

text \<open>
  A year is a leap year when it is divisible by 4 and (not divisible by 100 or divisible
  by 400); February has 29 days in a leap year and 28 otherwise; April, June, September
  and November have 30 days, the other months 31. Months are 0-indexed.
\<close>

definition is_leap_year :: "int \<Rightarrow> bool" where
  "is_leap_year y \<longleftrightarrow> y mod 4 = 0 \<and> (y mod 100 \<noteq> 0 \<or> y mod 400 = 0)"

definition gregorian_days_in_month :: "int \<Rightarrow> int \<Rightarrow> int" where
  "gregorian_days_in_month year month =
     (if month = 1 then (if is_leap_year year then 29 else 28)
      else if month = 3 \<or> month = 5 \<or> month = 8 \<or> month = 10 then 30
      else 31)"

lemma leap_rule:
  "(c \<Longrightarrow> b) \<Longrightarrow> (b \<Longrightarrow> a) \<Longrightarrow>
    (if \<not> a then 365 else if \<not> b then 366 else if \<not> c then 365 else 366)
      = (if a \<and> (\<not> b \<or> c) then 366 else (365::int))"
  by auto

lemma DaysInYear_leap: "DaysInYear y = (if is_leap_year y then 366 else 365)"
  unfolding DaysInYear_def is_leap_year_def
  by (rule leap_rule [OF mod400_mod100 mod100_mod4])

lemma month_disj:
  fixes m :: int
  assumes "0 \<le> m" "m \<le> 11"
  shows "m = 0 \<or> m = 1 \<or> m = 2 \<or> m = 3 \<or> m = 4 \<or> m = 5
    \<or> m = 6 \<or> m = 7 \<or> m = 8 \<or> m = 9 \<or> m = 10 \<or> m = 11"
  using assms by arith

lemma month_cases:
  fixes m :: int
  assumes "0 \<le> m" "m \<le> 11"
  obtains "m = 0" | "m = 1" | "m = 2" | "m = 3" | "m = 4" | "m = 5"
    | "m = 6" | "m = 7" | "m = 8" | "m = 9" | "m = 10" | "m = 11"
  using month_disj [OF assms] by blast

lemma in_year_facts:
  assumes "0 \<le> k" "k < DaysInYear y"
  shows "Day (msPerDay * (DayFromYear y + k)) = DayFromYear y + k"
    and "YearFromTime (msPerDay * (DayFromYear y + k)) = y"
    and "DayWithinYear (msPerDay * (DayFromYear y + k)) = k"
    and "InLeapYear (msPerDay * (DayFromYear y + k)) = (if is_leap_year y then 1 else 0)"
proof -
  have r: "(0::int) \<le> 0" "0 < msPerDay" by (simp_all add: msPerDay_def)
  show d: "Day (msPerDay * (DayFromYear y + k)) = DayFromYear y + k"
    using Day_of_day [OF r, of "DayFromYear y + k"] by simp
  show y: "YearFromTime (msPerDay * (DayFromYear y + k)) = y"
    using YearFromTime_in_year [OF assms r] by simp
  show "DayWithinYear (msPerDay * (DayFromYear y + k)) = k"
    by (simp add: DayWithinYear_def d y)
  show "InLeapYear (msPerDay * (DayFromYear y + k)) = (if is_leap_year y then 1 else 0)"
    by (simp add: InLeapYear_def y DaysInYear_leap)
qed

lemma MonthStartDay_simps:
  "MonthStartDay 0 L = 0" "MonthStartDay 1 L = 31" "MonthStartDay 2 L = 59 + L"
  "MonthStartDay 3 L = 90 + L" "MonthStartDay 4 L = 120 + L" "MonthStartDay 5 L = 151 + L"
  "MonthStartDay 6 L = 181 + L" "MonthStartDay 7 L = 212 + L" "MonthStartDay 8 L = 243 + L"
  "MonthStartDay 9 L = 273 + L" "MonthStartDay 10 L = 304 + L" "MonthStartDay 11 L = 334 + L"
  by (simp_all add: MonthStartDay_def)

lemma gregorian_days_in_month_simps:
  "gregorian_days_in_month y 0 = 31"
  "gregorian_days_in_month y 1 = (if is_leap_year y then 29 else 28)"
  "gregorian_days_in_month y 2 = 31" "gregorian_days_in_month y 3 = 30"
  "gregorian_days_in_month y 4 = 31" "gregorian_days_in_month y 5 = 30"
  "gregorian_days_in_month y 6 = 31" "gregorian_days_in_month y 7 = 31"
  "gregorian_days_in_month y 8 = 30" "gregorian_days_in_month y 9 = 31"
  "gregorian_days_in_month y 10 = 30" "gregorian_days_in_month y 11 = 31"
  by (simp_all add: gregorian_days_in_month_def)

lemma month_in_year:
  assumes "0 \<le> mn" "mn \<le> 11" "0 \<le> j" "j < gregorian_days_in_month y mn"
    and "L = (if is_leap_year y then 1 else 0)"
  shows "0 \<le> MonthStartDay mn L + j \<and> MonthStartDay mn L + j < DaysInYear y"
  using assms(1,2)
proof (cases mn rule: month_cases)
  case 1 with assms(3-) show ?thesis by (simp add: MonthStartDay_simps gregorian_days_in_month_simps DaysInYear_leap)
next
  case 2 with assms(3-) show ?thesis
    by (simp add: MonthStartDay_simps gregorian_days_in_month_simps DaysInYear_leap split: if_splits)
next
  case 3 with assms(3-) show ?thesis by (simp add: MonthStartDay_simps gregorian_days_in_month_simps DaysInYear_leap)
next
  case 4 with assms(3-) show ?thesis by (simp add: MonthStartDay_simps gregorian_days_in_month_simps DaysInYear_leap)
next
  case 5 with assms(3-) show ?thesis by (simp add: MonthStartDay_simps gregorian_days_in_month_simps DaysInYear_leap)
next
  case 6 with assms(3-) show ?thesis by (simp add: MonthStartDay_simps gregorian_days_in_month_simps DaysInYear_leap)
next
  case 7 with assms(3-) show ?thesis by (simp add: MonthStartDay_simps gregorian_days_in_month_simps DaysInYear_leap)
next
  case 8 with assms(3-) show ?thesis by (simp add: MonthStartDay_simps gregorian_days_in_month_simps DaysInYear_leap)
next
  case 9 with assms(3-) show ?thesis by (simp add: MonthStartDay_simps gregorian_days_in_month_simps DaysInYear_leap)
next
  case 10 with assms(3-) show ?thesis by (simp add: MonthStartDay_simps gregorian_days_in_month_simps DaysInYear_leap)
next
  case 11 with assms(3-) show ?thesis by (simp add: MonthStartDay_simps gregorian_days_in_month_simps DaysInYear_leap)
next
  case 12 with assms(3-) show ?thesis by (simp add: MonthStartDay_simps gregorian_days_in_month_simps DaysInYear_leap)
qed

lemma month_date_in_year:
  assumes "0 \<le> mn" "mn \<le> 11" "0 \<le> j" "j < gregorian_days_in_month y mn"
    and "L = (if is_leap_year y then 1 else 0)"
    and "t = msPerDay * (DayFromYear y + (MonthStartDay mn L + j))"
  shows "MonthFromTime t = mn" and "DateFromTime t = j + 1"
proof -
  have k: "0 \<le> MonthStartDay mn L + j" "MonthStartDay mn L + j < DaysInYear y"
    using month_in_year [OF assms(1-5)] by simp_all
  have dw: "DayWithinYear t = MonthStartDay mn L + j"
    unfolding assms(6) by (rule in_year_facts(3) [OF k])
  have il: "InLeapYear t = L"
    unfolding assms(6) assms(5) by (rule in_year_facts(4) [OF k [unfolded assms(5)]])
  have L: "0 \<le> L" "L \<le> 1"
    by (simp_all add: assms(5))
  have j: "mn = 1 \<Longrightarrow> j < 28 + L"
    using assms(4,5) by (simp add: gregorian_days_in_month_simps split: if_splits)
  show m: "MonthFromTime t = mn"
    unfolding MonthFromTime_def dw il Let_def
    using assms(1,2)
    by (cases mn rule: month_cases; use assms(3,4) L j in
      \<open>simp add: MonthStartDay_simps gregorian_days_in_month_simps\<close>)
  show "DateFromTime t = j + 1"
    unfolding DateFromTime_def m dw il Let_def
    using assms(1,2)
    by (cases mn rule: month_cases; simp add: MonthStartDay_simps)
qed

lemma MakeDay_in_year:
  assumes "0 \<le> month" "month \<le> 11"
  shows "MakeDay year month date =
    DayFromYear year + MonthStartDay month (if is_leap_year year then 1 else 0) + date - 1"
proof -
  have "month div 12 = 0" "month mod 12 = month"
    using assms by simp_all
  moreover have "Day (msPerDay * d) = d" for d
    using Day_of_day [of 0 d] by (simp add: msPerDay_def)
  ultimately show ?thesis
    by (simp add: MakeDay_def Let_def DaysInYear_leap)
qed

lemma MakeDay_first_of_month:
  assumes "0 \<le> mn" "mn \<le> 11"
    and "t = msPerDay * (DayFromYear ym + MonthStartDay mn (if DaysInYear ym = 366 then 1 else 0))"
  shows "YearFromTime t = ym \<and> MonthFromTime t = mn \<and> DateFromTime t = 1"
proof -
  define L :: int where "L = (if is_leap_year ym then 1 else 0)"
  have t: "t = msPerDay * (DayFromYear ym + (MonthStartDay mn L + 0))"
    by (simp add: assms(3) L_def DaysInYear_leap)
  have j: "(0::int) \<le> 0" "0 < gregorian_days_in_month ym mn"
    by (simp_all add: gregorian_days_in_month_def)
  have k: "0 \<le> MonthStartDay mn L + 0" "MonthStartDay mn L + 0 < DaysInYear ym"
    using month_in_year [OF assms(1,2) j L_def] by simp_all
  have "YearFromTime t = ym"
    unfolding t by (rule in_year_facts(2) [OF k])
  moreover have "MonthFromTime t = mn"
    by (rule month_date_in_year(1) [OF assms(1,2) j L_def t])
  moreover have "DateFromTime t = 1"
    using month_date_in_year(2) [OF assms(1,2) j L_def t] by simp
  ultimately show ?thesis by simp
qed


lemma DayFromYear_bounds:
  assumes "1000 \<le> y" "y \<le> 9999"
  shows "- 354285 \<le> DayFromYear y" and "DayFromYear y \<le> 2932532"
proof -
  have "DayFromYear 1000 = - 354285" "DayFromYear 9999 = 2932532"
    by (simp_all add: DayFromYear_def)
  then show "- 354285 \<le> DayFromYear y" and "DayFromYear y \<le> 2932532"
    using DayFromYear_mono [OF assms(1)] DayFromYear_mono [OF assms(2)] by simp_all
qed

lemma new_Date_in_year:
  assumes "1000 \<le> year" "year \<le> 9999" "0 \<le> k" "k < DaysInYear year"
    and "\<bar>tza\<bar> \<le> msPerDay"
    and "MakeDay year month date = DayFromYear year + k"
  shows "new_Date tza year month date = Some (msPerDay * (DayFromYear year + k) - tza)"
proof -
  have "k < 367"
    using assms(4) by (simp add: DaysInYear_leap split: if_splits)
  with DayFromYear_bounds [OF assms(1,2)] assms(3)
  have "- 354285 \<le> DayFromYear year + k" "DayFromYear year + k \<le> 2932900"
    by simp_all
  then have "- 30610224000000 \<le> msPerDay * (DayFromYear year + k)"
    "msPerDay * (DayFromYear year + k) \<le> 253402560000000"
    by (simp_all add: msPerDay_def)
  with assms(5) have "\<bar>msPerDay * (DayFromYear year + k) - tza\<bar> \<le> 8640000000000000"
    by (simp add: msPerDay_def abs_le_iff)
  moreover have "MakeFullYear year = year"
    using assms(1) by (simp add: MakeFullYear_def)
  ultimately show ?thesis
    by (simp add: new_Date_def TimeClip_def UTC_def MakeDate_def MakeTime_def assms(6)
        mult.commute)
qed



text \<open>The model runs: the twelve months of 2026, evaluated from the definitions alone.\<close>

lemma getDaysInMonth_2026_evaluated:
  "map (\<lambda>m. getDaysInMonth 0 m 2026) [0, 1, 2, 3, 4, 5, 6, 7, 8, 9, 10, 11]
    = map Some [31, 28, 31, 30, 31, 30, 31, 31, 30, 31, 30, 31]"
  by code_simp

text \<open>
  The weekday of the first day of a month, as the specification fixes it: 2026-02-01 is a
  Sunday, weekdays repeat every 7 days, and 0 is Sunday. \<open>days_since_1000 year month\<close>
  counts the days from 1000-01-01 to the first day of the month with the Gregorian year
  and month lengths.
\<close>

definition gregorian_days_in_year :: "int \<Rightarrow> int" where
  "gregorian_days_in_year y = (if is_leap_year y then 366 else 365)"

definition days_since_1000 :: "int \<Rightarrow> int \<Rightarrow> int" where
  "days_since_1000 year month =
     sum_list (map gregorian_days_in_year [1000..year - 1])
       + sum_list (map (gregorian_days_in_month year) [0..month - 1])"

definition gregorian_weekday :: "int \<Rightarrow> int \<Rightarrow> int" where
  "gregorian_weekday year month =
     (days_since_1000 year month - days_since_1000 2026 1) mod 7"

lemma DayFromYear_sum:
  "1000 \<le> y \<Longrightarrow>
    DayFromYear y = DayFromYear 1000 + sum_list (map gregorian_days_in_year [1000..y - 1])"
proof (induction y rule: int_ge_induct)
  case base
  show ?case by simp
next
  case (step i)
  have "[1000..i + 1 - 1] = [1000..i - 1] @ [i]"
    using step.hyps upto_rec2 [of 1000 i] by simp
  with step.IH show ?case
    by (simp add: DayFromYear_step DaysInYear_leap gregorian_days_in_year_def)
qed

lemma upto_0_simps:
  "[0..0 - 1] = []" "[0..1 - 1] = [0::int]" "[0..2 - 1] = [0, 1::int]"
  "[0..3 - 1] = [0, 1, 2::int]" "[0..4 - 1] = [0, 1, 2, 3::int]"
  "[0..5 - 1] = [0, 1, 2, 3, 4::int]" "[0..6 - 1] = [0, 1, 2, 3, 4, 5::int]"
  "[0..7 - 1] = [0, 1, 2, 3, 4, 5, 6::int]" "[0..8 - 1] = [0, 1, 2, 3, 4, 5, 6, 7::int]"
  "[0..9 - 1] = [0, 1, 2, 3, 4, 5, 6, 7, 8::int]"
  "[0..10 - 1] = [0, 1, 2, 3, 4, 5, 6, 7, 8, 9::int]"
  "[0..11 - 1] = [0, 1, 2, 3, 4, 5, 6, 7, 8, 9, 10::int]"
  by (simp_all add: upto.simps)

lemma MonthStartDay_sum:
  assumes "0 \<le> m" "m \<le> 11"
  shows "MonthStartDay m (if is_leap_year y then 1 else 0)
    = sum_list (map (gregorian_days_in_month y) [0..m - 1])"
  using assms
  by (cases m rule: month_cases;
      simp only: upto_0_simps MonthStartDay_simps gregorian_days_in_month_simps list.map
        sum_list.Cons sum_list.Nil; simp)

lemma MakeDay_days_since_1000:
  assumes "1000 \<le> year" "0 \<le> month" "month \<le> 11"
  shows "MakeDay year month 1 = DayFromYear 1000 + days_since_1000 year month"
  using MakeDay_in_year [OF assms(2,3), of year 1] DayFromYear_sum [OF assms(1)]
    MonthStartDay_sum [OF assms(2,3), of year]
  by (simp add: days_since_1000_def)

lemma gregorian_weekday_MakeDay:
  assumes "1000 \<le> year" "0 \<le> month" "month \<le> 11"
  shows "gregorian_weekday year month = (MakeDay year month 1 + 4) mod 7"
proof -
  have "MakeDay 2026 1 1 = DayFromYear 1000 + days_since_1000 2026 1"
    by (rule MakeDay_days_since_1000) simp_all
  moreover have "MakeDay 2026 1 1 = 20485"
    using MakeDay_in_year [of 1 2026 1]
    by (simp add: MonthStartDay_simps DayFromYear_def)
  ultimately have "days_since_1000 2026 1 = 20485 - DayFromYear 1000"
    by simp
  moreover have "days_since_1000 year month = MakeDay year month 1 - DayFromYear 1000"
    using MakeDay_days_since_1000 [OF assms] by simp
  ultimately have "days_since_1000 year month - days_since_1000 2026 1
      = MakeDay year month 1 - 20485"
    by simp
  then have "gregorian_weekday year month = (MakeDay year month 1 - 20485) mod 7"
    by (simp only: gregorian_weekday_def)
  also have "MakeDay year month 1 - 20485 = MakeDay year month 1 + 4 + 7 * (- 2927)"
    by simp
  also have "\<dots> mod 7 = (MakeDay year month 1 + 4) mod 7"
    by (rule mod_mult_self2)
  finally show ?thesis .
qed

text \<open>
  Claim C9. For every 4-digit year and 0-indexed month in 0..11, \<open>getFirstDayOfMonth\<close>
  returns the weekday of day 1 of that month, 0 being Sunday: the number of days, counted
  with the Gregorian year and month lengths, between Sunday 2026-02-01 and that day,
  modulo 7. For year 2026 and month 1 it returns 0.
\<close>

theorem getFirstDayOfMonth_weekday:
  assumes "1000 \<le> year" "year \<le> 9999" "0 \<le> month" "month \<le> 11"
    and "\<bar>tza\<bar> \<le> msPerDay"
  shows "getFirstDayOfMonth tza month year = Some (gregorian_weekday year month)
    \<and> getFirstDayOfMonth tza 1 2026 = Some 0"
proof -
  have main: "getFirstDayOfMonth tza m y = Some (gregorian_weekday y m)"
    if y: "1000 \<le> y" "y \<le> 9999" and m: "0 \<le> m" "m \<le> 11" for y m
  proof -
    define L :: int where "L = (if is_leap_year y then 1 else 0)"
    have j: "(0::int) \<le> 0" "0 < gregorian_days_in_month y m"
      by (simp_all add: gregorian_days_in_month_def)
    have k: "0 \<le> MonthStartDay m L + 0" "MonthStartDay m L + 0 < DaysInYear y"
      using month_in_year [OF m j L_def] by simp_all
    have d: "MakeDay y m 1 = DayFromYear y + (MonthStartDay m L + 0)"
      unfolding L_def using MakeDay_in_year [OF m, of y 1] by simp
    from new_Date_in_year [OF y k assms(5) d]
    have "getFirstDayOfMonth tza m y
        = Some (WeekDay (msPerDay * (DayFromYear y + (MonthStartDay m L + 0))))"
      by (simp add: getFirstDayOfMonth_def getDay_def LocalTime_def)
    also have "WeekDay (msPerDay * (DayFromYear y + (MonthStartDay m L + 0)))
        = (MakeDay y m 1 + 4) mod 7"
      unfolding WeekDay_def in_year_facts(1) [OF k] d ..
    finally show ?thesis
      using gregorian_weekday_MakeDay [OF y(1) m] by simp
  qed
  have "getFirstDayOfMonth tza 1 2026 = Some (gregorian_weekday 2026 1)"
    by (rule main) simp_all
  moreover have "gregorian_weekday 2026 1 = 0"
    by (simp add: gregorian_weekday_def)
  ultimately show ?thesis
    using main [OF assms(1-4)] by simp
qed

theorem getFirstDayOfMonth_weekday_witness:
  "getFirstDayOfMonth (- 18000000) 1 2026 = Some 0
    \<and> getFirstDayOfMonth (- 18000000) 1 2026 = Some (gregorian_weekday 2026 1)"
  using getFirstDayOfMonth_weekday [of 2026 1 "- 18000000"]
  by (simp add: msPerDay_def gregorian_weekday_def)

text \<open>
  The model runs: the first weekdays of the twelve months of 2026, evaluated from the
  definitions alone (1 January 2026 is a Thursday).
\<close>

lemma getFirstDayOfMonth_2026_evaluated:
  "map (\<lambda>m. getFirstDayOfMonth 0 m 2026) [0, 1, 2, 3, 4, 5, 6, 7, 8, 9, 10, 11]
    = map Some [4, 0, 0, 3, 5, 1, 3, 6, 2, 4, 0, 2]"
  by code_simp

section \<open>Values of the host language\<close>

text \<open>
  A JavaScript number as the program meets it: an integer or NaN. \<open>Num n\<close> stands for
  the double of value \<open>n\<close>. The host represents every integer up to \<open>2 ^ 53\<close> in
  magnitude exactly and rounds beyond that, which the model does not follow: it is a
  model of the numbers up to \<open>2 ^ 53\<close> in magnitude. It does not tell \<open>-0\<close> from
  \<open>0\<close>.
\<close>

datatype jsnum = NaN | Num int

text \<open>
  Strings are lists of code units; the model has the code units 0..255. An exception is
  a value: \<open>Error msg\<close> is \<^verbatim>\<open>new Error(msg)\<close> thrown by the application,
  \<open>FirebaseError code\<close> is the error with which the Firebase SDK rejects a request.
\<close>

datatype js_error = Error string | FirebaseError string

subsection \<open>parseInt\<close>

text \<open>
  \<^verbatim>\<open>parseInt(string)\<close> of ECMA-262 with the radix left out. The argument is the string
  the host's \<open>ToString\<close> makes of the actual argument. Leading white space is dropped, a
  sign is read, a prefix \<^verbatim>\<open>0x\<close> or \<^verbatim>\<open>0X\<close> selects radix 16, and the longest run of
  digits of the radix is the value; NaN when that run is empty.
\<close>

definition StrWhiteSpaceChar :: "char \<Rightarrow> bool" where
  "StrWhiteSpaceChar c \<longleftrightarrow>
     (let n = (of_char c :: nat) in (9 \<le> n \<and> n \<le> 13) \<or> n = 32 \<or> n = 160)"

definition digit_value :: "char \<Rightarrow> nat option" where
  "digit_value c =
     (let n = (of_char c :: nat) in
      if 48 \<le> n \<and> n \<le> 57 then Some (n - 48)
      else if 97 \<le> n \<and> n \<le> 102 then Some (n - 87)
      else if 65 \<le> n \<and> n \<le> 70 then Some (n - 55)
      else None)"

definition radix_digit :: "nat \<Rightarrow> char \<Rightarrow> bool" where
  "radix_digit R c = (case digit_value c of None \<Rightarrow> False | Some v \<Rightarrow> v < R)"

definition digits_value :: "nat \<Rightarrow> string \<Rightarrow> nat" where
  "digits_value R Z =
     foldl (\<lambda>a c. a * R + (case digit_value c of None \<Rightarrow> 0 | Some v \<Rightarrow> v)) 0 Z"

fun strip_sign :: "string \<Rightarrow> int \<times> string" where
  "strip_sign (c # S) =
     (if c = CHR ''-'' then (- 1, S) else if c = CHR ''+'' then (1, S) else (1, c # S))"
| "strip_sign [] = (1, [])"

fun strip_prefix :: "string \<Rightarrow> nat \<times> string" where
  "strip_prefix (a # b # S) =
     (if a = CHR ''0'' \<and> (b = CHR ''x'' \<or> b = CHR ''X'') then (16, S) else (10, a # b # S))"
| "strip_prefix S = (10, S)"

definition parseInt :: "string \<Rightarrow> jsnum" where
  "parseInt inputString =
     (let (sign, S) = strip_sign (dropWhile StrWhiteSpaceChar inputString);
          (R, S') = strip_prefix S;
          Z = takeWhile (radix_digit R) S'
      in if Z = [] then NaN else Num (sign * int (digits_value R Z)))"

subsection \<open>Number to string\<close>

text \<open>
  \<open>Number::toString\<close> in radix 10, as a template literal and \<^verbatim>\<open>JSON.stringify\<close> apply
  it: the decimal digits of the integer with a leading minus sign, which is what the host
  prints for the integers up to \<open>2 ^ 53\<close> in magnitude, and \<^verbatim>\<open>NaN\<close>.
\<close>

definition digit_char :: "nat \<Rightarrow> char" where
  "digit_char d = char_of (48 + d)"

fun nat_digits :: "nat \<Rightarrow> string" where
  "nat_digits n = (if n < 10 then [digit_char n] else nat_digits (n div 10) @ [digit_char (n mod 10)])"

declare nat_digits.simps [simp del]

definition int_digits :: "int \<Rightarrow> string" where
  "int_digits n = (if n < 0 then CHR ''-'' # nat_digits (nat (- n)) else nat_digits (nat n))"

definition Number_toString :: "jsnum \<Rightarrow> string" where
  "Number_toString x = (case x of NaN \<Rightarrow> ''NaN'' | Num n \<Rightarrow> int_digits n)"

subsection \<open>Decimal numerals are read back\<close>

text \<open>\<open>parseInt\<close> reads the numeral \<open>ToString\<close> prints for an integer as that integer.\<close>

definition is_decimal_digit :: "char \<Rightarrow> bool" where
  "is_decimal_digit c \<longleftrightarrow> 48 \<le> (of_char c :: nat) \<and> (of_char c :: nat) \<le> 57"

lemma of_char_digit_char: "d < 10 \<Longrightarrow> (of_char (digit_char d) :: nat) = 48 + d"
  by (simp add: digit_char_def)

lemma is_decimal_digit_digit_char: "d < 10 \<Longrightarrow> is_decimal_digit (digit_char d)"
  by (simp add: is_decimal_digit_def of_char_digit_char)

lemma digit_value_digit_char: "d < 10 \<Longrightarrow> digit_value (digit_char d) = Some d"
  by (simp add: digit_value_def of_char_digit_char)

lemma digit_value_decimal:
  "is_decimal_digit c \<Longrightarrow> digit_value c = Some (of_char c - 48)"
  by (simp add: digit_value_def is_decimal_digit_def)

lemma radix_digit_decimal: "is_decimal_digit c \<Longrightarrow> radix_digit 10 c"
  by (auto simp: radix_digit_def digit_value_decimal is_decimal_digit_def)

lemma nat_digits_decimal: "\<forall>c \<in> set (nat_digits n). is_decimal_digit c"
proof (induction n rule: nat_digits.induct)
  case (1 n)
  show ?case
  proof (cases "n < 10")
    case True
    then show ?thesis
      by (subst nat_digits.simps) (simp add: is_decimal_digit_digit_char)
  next
    case False
    with 1 show ?thesis
      by (subst nat_digits.simps) (simp add: is_decimal_digit_digit_char)
  qed
qed

lemma nat_digits_not_Nil: "nat_digits n \<noteq> []"
  by (subst nat_digits.simps) simp

lemma digits_value_snoc:
  "digits_value R (Z @ [c])
     = digits_value R Z * R + (case digit_value c of None \<Rightarrow> 0 | Some v \<Rightarrow> v)"
  by (simp add: digits_value_def)

lemma digits_value_nat_digits: "digits_value 10 (nat_digits n) = n"
proof (induction n rule: nat_digits.induct)
  case (1 n)
  show ?case
  proof (cases "n < 10")
    case True
    then show ?thesis
      by (subst nat_digits.simps) (simp add: digits_value_def digit_value_digit_char)
  next
    case False
    with 1 have "digits_value 10 (nat_digits (n div 10)) = n div 10"
      by simp
    with False show ?thesis
      by (subst nat_digits.simps) (simp add: digits_value_snoc digit_value_digit_char)
  qed
qed

lemma strip_prefix_decimal:
  assumes "\<forall>c \<in> set S. is_decimal_digit c"
  shows "strip_prefix S = (10, S)"
proof (cases S rule: strip_prefix.cases)
  case (1 a b S')
  with assms have "is_decimal_digit b" by simp
  then have "b \<noteq> CHR ''x''" "b \<noteq> CHR ''X''"
    by (auto simp: is_decimal_digit_def)
  with 1 show ?thesis by simp
qed simp_all

lemma parseInt_nat_digits: "parseInt (nat_digits n) = Num (int n)"
proof -
  note d = nat_digits_decimal [of n]
  obtain c S where S: "nat_digits n = c # S"
    using nat_digits_not_Nil [of n] by (cases "nat_digits n") auto
  with d have c: "is_decimal_digit c" by simp
  then have "\<not> StrWhiteSpaceChar c" "c \<noteq> CHR ''-''" "c \<noteq> CHR ''+''"
    by (auto simp: is_decimal_digit_def StrWhiteSpaceChar_def)
  then have sg: "strip_sign (dropWhile StrWhiteSpaceChar (nat_digits n)) = (1, nat_digits n)"
    by (simp add: S)
  have tw: "takeWhile (radix_digit 10) (nat_digits n) = nat_digits n"
    using d by (simp add: radix_digit_decimal)
  show ?thesis
    by (simp add: parseInt_def sg tw strip_prefix_decimal [OF d] nat_digits_not_Nil
        digits_value_nat_digits Let_def)
qed

lemma parseInt_int_digits: "parseInt (int_digits k) = Num k"
proof (cases "k < 0")
  case False
  then show ?thesis
    by (simp add: int_digits_def parseInt_nat_digits)
next
  case True
  note d = nat_digits_decimal [of "nat (- k)"]
  have "\<not> StrWhiteSpaceChar CHR ''-''"
    by (simp add: StrWhiteSpaceChar_def)
  then have sg: "strip_sign (dropWhile StrWhiteSpaceChar (int_digits k))
      = (- 1, nat_digits (nat (- k)))"
    using True by (simp add: int_digits_def)
  have tw: "takeWhile (radix_digit 10) (nat_digits (nat (- k))) = nat_digits (nat (- k))"
    using d by (simp add: radix_digit_decimal)
  show ?thesis
    using True
    by (simp add: parseInt_def sg tw strip_prefix_decimal [OF d] nat_digits_not_Nil
        digits_value_nat_digits Let_def)
qed

text \<open>
  The empty text, and a text that starts with a character that is neither white space,
  a sign nor a decimal digit, are read as NaN.
\<close>

lemma parseInt_no_digits:
  assumes "r = [] \<or> (\<not> StrWhiteSpaceChar (hd r) \<and> hd r \<noteq> CHR ''-'' \<and> hd r \<noteq> CHR ''+''
      \<and> \<not> radix_digit 10 (hd r))"
  shows "parseInt r = NaN"
proof (cases r)
  case Nil
  then show ?thesis
    by (simp add: parseInt_def)
next
  case (Cons c t)
  with assms have c: "\<not> StrWhiteSpaceChar c" "c \<noteq> CHR ''-''" "c \<noteq> CHR ''+''" "\<not> radix_digit 10 c"
    by simp_all
  have "radix_digit 10 CHR ''0''"
    by (simp add: radix_digit_def digit_value_def)
  with c(4) have "c \<noteq> CHR ''0''"
    by auto
  then have "strip_prefix (c # t) = (10, c # t)"
    by (cases t) simp_all
  with c show ?thesis
    by (simp add: Cons parseInt_def)
qed

section \<open>The collaborators: Firebase Authentication and Cloud Firestore\<close>

text \<open>
  A document of the collection \<^verbatim>\<open>entries\<close>, with the fields \<open>saveEntry\<close> writes
  (the README's database schema). The field \<^verbatim>\<open>note\<close> is \<open>note_text\<close> here.
\<close>

record entry_data =
  userId :: string
  date :: string
  rating :: jsnum
  note_text :: string

text \<open>
  The collection is a list of documents, each a document id with its data. \<open>setDoc\<close>
  replaces the data of the document with the given id, or adds the document.
\<close>

type_synonym collection = "(string \<times> entry_data) list"

definition setDoc_write :: "string \<Rightarrow> entry_data \<Rightarrow> collection \<Rightarrow> collection" where
  "setDoc_write docId data docs =
     (if docId \<in> fst ` set docs
      then map (\<lambda>(i, x). if i = docId then (i, data) else (i, x)) docs
      else docs @ [(docId, data)])"

text \<open>
  A query has an optional filter \<^verbatim>\<open>where('userId', '==', u)\<close> and the order
  \<^verbatim>\<open>orderBy('date')\<close>: Firestore returns the matching documents by ascending date,
  documents of one date by ascending document id.
\<close>

definition run_query :: "string option \<Rightarrow> collection \<Rightarrow> collection" where
  "run_query owner docs =
     sort_key (\<lambda>(i, x). (date x, i))
       (filter (\<lambda>(i, x). case owner of None \<Rightarrow> True | Some u \<Rightarrow> userId x = u) docs)"

text \<open>
  A request to Firestore resolves or is rejected. \<open>backend\<close> is what the service does to
  the request of the call at hand: \<open>None\<close> when it serves it, \<open>Some code\<close> when it
  rejects it with that error code. A rejected write leaves the collection as it was.
\<close>

definition getDocs :: "string option \<Rightarrow> string option \<Rightarrow> collection \<Rightarrow> js_error + collection" where
  "getDocs backend owner docs =
     (case backend of Some code \<Rightarrow> Inl (FirebaseError code) | None \<Rightarrow> Inr (run_query owner docs))"

definition setDoc :: "string option \<Rightarrow> string \<Rightarrow> entry_data \<Rightarrow> collection \<Rightarrow> js_error + collection" where
  "setDoc backend docId data docs =
     (case backend of Some code \<Rightarrow> Inl (FirebaseError code)
      | None \<Rightarrow> Inr (setDoc_write docId data docs))"

section \<open>The state of the modules\<close>

text \<open>
  \<^verbatim>\<open>calendar.js\<close> keeps \<^verbatim>\<open>currentEntries\<close> (an object used as a mapping from date
  strings to cached entries) and \<^verbatim>\<open>viewingUserId\<close>; \<^verbatim>\<open>auth.js\<close> keeps
  \<^verbatim>\<open>currentUser\<close>, beside the SDK's own \<^verbatim>\<open>auth.currentUser\<close>. \<open>entries\<close> is the
  Firestore collection. \<open>None\<close> is \<^verbatim>\<open>null\<close>.
\<close>

record cache_entry =
  entry_id :: string
  entry_rating :: jsnum
  entry_note :: string

record firebase_user =
  uid :: string

record app_state =
  currentEntries :: "string \<rightharpoonup> cache_entry"
  viewingUserId :: "string option"
  currentUser :: "firebase_user option"
  auth_currentUser :: "firebase_user option"
  entries :: collection

subsection \<open>auth.js\<close>

text \<open>\<^verbatim>\<open>return currentUser || auth.currentUser;\<close>\<close>

definition getCurrentUser :: "app_state \<Rightarrow> firebase_user option" where
  "getCurrentUser w = (case currentUser w of Some u \<Rightarrow> Some u | None \<Rightarrow> auth_currentUser w)"

subsection \<open>calendar.js: the entry cache\<close>

text \<open>
  \<open>loadUserEntries\<close> awaits the query, builds a fresh object from the snapshot in its
  order (a later document of the same date overwrites an earlier one), and only then
  assigns the two module variables. An exception is logged and thrown again. The result
  is the outcome of the call together with the state it leaves.
\<close>

definition cache_of :: "string \<times> entry_data \<Rightarrow> cache_entry" where
  "cache_of doc = \<lparr>entry_id = fst doc, entry_rating = rating (snd doc), entry_note = note_text (snd doc)\<rparr>"

definition snapshot_entries :: "collection \<Rightarrow> (string \<rightharpoonup> cache_entry)" where
  "snapshot_entries snapshot =
     fold (\<lambda>doc es. es(date (snd doc) \<mapsto> cache_of doc)) snapshot Map.empty"

definition loadUserEntries ::
  "string option \<Rightarrow> string \<Rightarrow> app_state \<Rightarrow> (js_error + (string \<rightharpoonup> cache_entry)) \<times> app_state" where
  "loadUserEntries backend user_id w =
     (case getDocs backend (Some user_id) (entries w) of
        Inl error \<Rightarrow> (Inl error, w)
      | Inr snapshot \<Rightarrow>
          (let es = snapshot_entries snapshot
           in (Inr es, w\<lparr>currentEntries := es, viewingUserId := Some user_id\<rparr>)))"

text \<open>
  \<open>saveEntry\<close> throws when nobody is logged in; otherwise it writes the document
  \<^verbatim>\<open>${user.uid}_${date}\<close> and, once the write has resolved, stores the same values in the
  cache under \<open>date\<close>. The rating argument is given as the string \<open>ToString\<close> makes of
  it, which is what \<open>parseInt\<close> reads; the note is a string or, as \<open>None\<close>,
  \<^verbatim>\<open>undefined\<close> or \<^verbatim>\<open>null\<close>, and \<^verbatim>\<open>note || ''\<close> is the empty string for these and
  for the empty string.
\<close>

definition or_empty :: "string option \<Rightarrow> string" where
  "or_empty n = (case n of None \<Rightarrow> [] | Some s \<Rightarrow> if s = [] then [] else s)"

definition saveEntry ::
  "string option \<Rightarrow> string \<Rightarrow> string \<Rightarrow> string option \<Rightarrow> app_state \<Rightarrow> (js_error + unit) \<times> app_state" where
  "saveEntry backend date_arg rating_arg note_arg w =
     (case getCurrentUser w of
        None \<Rightarrow> (Inl (Error ''Must be logged in to save entries''), w)
      | Some user \<Rightarrow>
          (let docId = uid user @ ''_'' @ date_arg in
           case setDoc backend docId
                  \<lparr>userId = uid user, date = date_arg, rating = parseInt rating_arg,
                   note_text = or_empty note_arg\<rparr> (entries w) of
             Inl error \<Rightarrow> (Inl error, w)
           | Inr docs \<Rightarrow>
               (Inr (),
                w\<lparr>entries := docs,
                  currentEntries := (currentEntries w)(date_arg \<mapsto>
                    \<lparr>entry_id = docId, entry_rating = parseInt rating_arg,
                     entry_note = or_empty note_arg\<rparr>)\<rparr>)))"

definition getViewingUserId :: "app_state \<Rightarrow> string option" where
  "getViewingUserId w = viewingUserId w"

definition getCurrentEntries :: "app_state \<Rightarrow> (string \<rightharpoonup> cache_entry)" where
  "getCurrentEntries w = currentEntries w"

section \<open>The entry cache: loading\<close>

text \<open>
  The specification's storage layer holds at most one entry for each pair of owner and
  date.
\<close>

definition one_entry_per_owner_date :: "collection \<Rightarrow> bool" where
  "one_entry_per_owner_date docs \<longleftrightarrow>
     (\<forall>p \<in> set docs. \<forall>q \<in> set docs.
        userId (snd p) = userId (snd q) \<and> date (snd p) = date (snd q) \<longrightarrow> p = q)"

lemma set_run_query:
  "set (run_query (Some u) docs) = {doc \<in> set docs. userId (snd doc) = u}"
  by (auto simp: run_query_def)

lemma fold_entries_map_of:
  "fold (\<lambda>doc es. es(date (snd doc) \<mapsto> cache_of doc)) xs m
     = m ++ map_of (rev (map (\<lambda>doc. (date (snd doc), cache_of doc)) xs))"
proof (induction xs arbitrary: m)
  case Nil
  show ?case by simp
next
  case (Cons x xs)
  have "m(date (snd x) \<mapsto> cache_of x) = m ++ [date (snd x) \<mapsto> cache_of x]"
    by simp
  then show ?case
    by (simp only: fold_simps Cons.IH list.map rev.simps map_of_append map_add_assoc map_of.simps
        fst_conv snd_conv)
qed

lemma snapshot_entries_map_of:
  "snapshot_entries xs = map_of (rev (map (\<lambda>doc. (date (snd doc), cache_of doc)) xs))"
  by (simp add: snapshot_entries_def fold_entries_map_of)

lemma snapshot_entries_Some:
  assumes "snapshot_entries xs d = Some e"
  shows "\<exists>doc \<in> set xs. date (snd doc) = d \<and> e = cache_of doc"
proof -
  from assms have "(d, e) \<in> set (rev (map (\<lambda>doc. (date (snd doc), cache_of doc)) xs))"
    unfolding snapshot_entries_map_of by (rule map_of_SomeD)
  then show ?thesis by auto
qed

lemma snapshot_entries_member:
  assumes "doc \<in> set xs"
  shows "\<exists>doc' \<in> set xs. date (snd doc') = date (snd doc) \<and>
       snapshot_entries xs (date (snd doc)) = Some (cache_of doc')"
proof -
  from assms
  have "(date (snd doc), cache_of doc) \<in> set (rev (map (\<lambda>doc. (date (snd doc), cache_of doc)) xs))"
    by auto
  then obtain e where "snapshot_entries xs (date (snd doc)) = Some e"
    unfolding snapshot_entries_map_of by (blast dest: weak_map_of_SomeI)
  with snapshot_entries_Some [OF this] show ?thesis by auto
qed

text \<open>The two entries of the specification's export scenario, with \<open>u1\<close> logged in.\<close>

definition example_state :: app_state where
  "example_state =
     \<lparr>currentEntries = Map.empty, viewingUserId = None,
      currentUser = Some \<lparr>uid = ''u1''\<rparr>, auth_currentUser = None,
      entries =
        [(''u1_2026-01-01'',
            \<lparr>userId = ''u1'', date = ''2026-01-01'', rating = Num 5, note_text = []\<rparr>),
         (''u2_2026-01-02'',
            \<lparr>userId = ''u2'', date = ''2026-01-02'', rating = Num 3, note_text = ''ok, fine''\<rparr>)]\<rparr>"

text \<open>
  Claim C2. After \<open>loadUserEntries owner\<close> has completed, \<open>getCurrentEntries\<close> is the
  object the call returned, \<open>getViewingUserId\<close> is \<open>owner\<close>, and the cache holds at key
  \<open>d\<close> the entry \<open>e\<close> exactly when the collection has a document of \<open>owner\<close> with date
  \<open>d\<close> whose id, rating and note are \<open>e\<close>: every entry of the owner, none of anybody
  else. The storage holds at most one entry for each owner and date.
\<close>

theorem loadUserEntries_exact:
  assumes "loadUserEntries backend owner w = (Inr es, w')"
    and "one_entry_per_owner_date (entries w)"
  shows "getCurrentEntries w' = es \<and> getViewingUserId w' = Some owner
    \<and> (\<forall>d e. es d = Some e \<longleftrightarrow>
          (\<exists>doc \<in> set (entries w).
             userId (snd doc) = owner \<and> date (snd doc) = d \<and> e = cache_of doc))"
proof -
  from assms(1) have served: "backend = None"
    by (cases backend) (simp_all add: loadUserEntries_def getDocs_def)
  define snapshot where "snapshot = run_query (Some owner) (entries w)"
  from assms(1) have es: "es = snapshot_entries snapshot"
    and w': "w' = w\<lparr>currentEntries := es, viewingUserId := Some owner\<rparr>"
    by (auto simp: loadUserEntries_def getDocs_def served snapshot_def Let_def)
  have snap: "set snapshot = {doc \<in> set (entries w). userId (snd doc) = owner}"
    unfolding snapshot_def by (rule set_run_query)
  have "es d = Some e \<longleftrightarrow>
      (\<exists>doc \<in> set (entries w). userId (snd doc) = owner \<and> date (snd doc) = d \<and> e = cache_of doc)"
    for d e
  proof
    assume "es d = Some e"
    then obtain doc where "doc \<in> set snapshot" "date (snd doc) = d" "e = cache_of doc"
      unfolding es by (blast dest: snapshot_entries_Some)
    with snap show "\<exists>doc \<in> set (entries w).
        userId (snd doc) = owner \<and> date (snd doc) = d \<and> e = cache_of doc"
      by auto
  next
    assume "\<exists>doc \<in> set (entries w).
        userId (snd doc) = owner \<and> date (snd doc) = d \<and> e = cache_of doc"
    then obtain doc where doc: "doc \<in> set (entries w)" "userId (snd doc) = owner"
        "date (snd doc) = d" "e = cache_of doc"
      by blast
    then have "doc \<in> set snapshot"
      by (simp add: snap)
    from snapshot_entries_member [OF this]
    obtain doc' where doc': "doc' \<in> set snapshot" "date (snd doc') = date (snd doc)"
        "snapshot_entries snapshot (date (snd doc)) = Some (cache_of doc')"
      by blast
    from doc'(1) have "doc' \<in> set (entries w)" "userId (snd doc') = owner"
      by (simp_all add: snap)
    with doc doc'(2) assms(2) have "doc' = doc"
      unfolding one_entry_per_owner_date_def by blast
    with doc'(3) doc(3,4) show "es d = Some e"
      by (simp add: es)
  qed
  then show ?thesis
    by (simp add: w' getCurrentEntries_def getViewingUserId_def)
qed

theorem loadUserEntries_exact_witness:
  "getViewingUserId (snd (loadUserEntries None ''u2'' example_state)) = Some ''u2''
   \<and> getCurrentEntries (snd (loadUserEntries None ''u2'' example_state)) ''2026-01-02''
       = Some \<lparr>entry_id = ''u2_2026-01-02'', entry_rating = Num 3, entry_note = ''ok, fine''\<rparr>
   \<and> getCurrentEntries (snd (loadUserEntries None ''u2'' example_state)) ''2026-01-01'' = None"
proof -
  obtain es w' where run: "loadUserEntries None ''u2'' example_state = (Inr es, w')"
    by (simp add: loadUserEntries_def getDocs_def Let_def)
  have one: "one_entry_per_owner_date (entries example_state)"
    by (simp add: one_entry_per_owner_date_def example_state_def)
  note exact = loadUserEntries_exact [OF run one]
  from exact have "es ''2026-01-02''
      = Some \<lparr>entry_id = ''u2_2026-01-02'', entry_rating = Num 3, entry_note = ''ok, fine''\<rparr>"
    by (simp add: example_state_def cache_of_def)
  moreover have "es ''2026-01-01'' = None"
  proof (cases "es ''2026-01-01''")
    case None
    then show ?thesis .
  next
    case (Some e)
    with exact show ?thesis
      by (simp add: example_state_def)
  qed
  ultimately show ?thesis
    using exact by (simp add: run)
qed

section \<open>The entry cache: saving and failures\<close>

text \<open>
  The state after \<open>u1\<close> has opened the own calendar: one cached entry, \<open>u1\<close> viewed.
\<close>

definition example_viewing :: app_state where
  "example_viewing =
     example_state
       \<lparr>currentEntries :=
          [''2026-01-01'' \<mapsto> \<lparr>entry_id = ''u1_2026-01-01'', entry_rating = Num 5, entry_note = []\<rparr>],
        viewingUserId := Some ''u1''\<rparr>"

lemma getCurrentUser_example [simp]:
  "getCurrentUser example_state = Some \<lparr>uid = ''u1''\<rparr>"
  "getCurrentUser example_viewing = Some \<lparr>uid = ''u1''\<rparr>"
  by (simp_all add: getCurrentUser_def example_state_def example_viewing_def)

lemma saveEntry_served:
  assumes "getCurrentUser w = Some user"
  shows "saveEntry None d r n w =
    (Inr (),
     w\<lparr>entries := setDoc_write (uid user @ ''_'' @ d)
          \<lparr>userId = uid user, date = d, rating = parseInt r, note_text = or_empty n\<rparr> (entries w),
       currentEntries := (currentEntries w)(d \<mapsto>
          \<lparr>entry_id = uid user @ ''_'' @ d, entry_rating = parseInt r, entry_note = or_empty n\<rparr>)\<rparr>)"
  by (simp add: saveEntry_def assms setDoc_def Let_def)

lemma saveEntry_rejected:
  assumes "getCurrentUser w = Some user"
  shows "saveEntry (Some code) d r n w = (Inl (FirebaseError code), w)"
  by (simp add: saveEntry_def assms setDoc_def Let_def)

lemma saveEntry_logged_out:
  assumes "getCurrentUser w = None"
  shows "saveEntry backend d r n w = (Inl (Error ''Must be logged in to save entries''), w)"
  by (simp add: saveEntry_def assms)

lemma loadUserEntries_served:
  "loadUserEntries None owner w =
    (Inr (snapshot_entries (run_query (Some owner) (entries w))),
     w\<lparr>currentEntries := snapshot_entries (run_query (Some owner) (entries w)),
       viewingUserId := Some owner\<rparr>)"
  by (simp add: loadUserEntries_def getDocs_def Let_def)

lemma loadUserEntries_rejected:
  "loadUserEntries (Some code) owner w = (Inl (FirebaseError code), w)"
  by (simp add: loadUserEntries_def getDocs_def)

text \<open>
  Claim C3, as stated, fails: the rating is stored as \<open>parseInt\<close> makes it, and for a
  rating without leading digits that is NaN, not an integer.
\<close>

theorem saveEntry_rating_counterexample:
  "fst (saveEntry None ''2026-03-15'' ''abc'' (Some ''Great hike'') example_state) = Inr ()
   \<and> getCurrentEntries
        (snd (saveEntry None ''2026-03-15'' ''abc'' (Some ''Great hike'') example_state))
        ''2026-03-15''
      = Some \<lparr>entry_id = ''u1_2026-03-15'', entry_rating = NaN, entry_note = ''Great hike''\<rparr>"
  by (simp add: saveEntry_served [OF getCurrentUser_example(1)] getCurrentEntries_def
      or_empty_def parseInt_def StrWhiteSpaceChar_def radix_digit_def digit_value_def)

text \<open>
  Claim C3, amended. With an actor logged in and the write served, \<open>saveEntry\<close> succeeds
  and the cache holds at key \<open>date\<close>, with no later load, the id \<^verbatim>\<open>uid_date\<close>, the rating
  \<open>parseInt\<close> reads from the rating's text and the note, the empty string standing for
  a missing or empty note. The decimal numeral of an integer \<open>k\<close> is read as \<open>k\<close>
  whatever \<open>k\<close> is, among the integers the host represents exactly: no range from 1 to
  5 is checked. The empty text, and a text that starts with a character that is neither
  white space, a sign nor a decimal digit, are read as NaN.
\<close>

theorem saveEntry_cache_update:
  assumes "getCurrentUser w = Some user" and "\<bar>k\<bar> \<le> 2 ^ 53"
  shows "fst (saveEntry None d r n w) = Inr ()
    \<and> getCurrentEntries (snd (saveEntry None d r n w)) d
        = Some \<lparr>entry_id = uid user @ ''_'' @ d, entry_rating = parseInt r,
                 entry_note = (case n of None \<Rightarrow> [] | Some s \<Rightarrow> s)\<rparr>
    \<and> parseInt (int_digits k) = Num k
    \<and> (r = [] \<or> (\<not> StrWhiteSpaceChar (hd r) \<and> hd r \<noteq> CHR ''-'' \<and> hd r \<noteq> CHR ''+''
            \<and> \<not> radix_digit 10 (hd r))
         \<longrightarrow> parseInt r = NaN)"
  using parseInt_no_digits [of r]
  by (simp add: saveEntry_served [OF assms(1)] getCurrentEntries_def or_empty_def
      parseInt_int_digits split: option.splits)

theorem saveEntry_cache_update_witness:
  "fst (saveEntry None ''2026-03-15'' ''4'' (Some ''Great hike'') example_state) = Inr ()
   \<and> getCurrentEntries
        (snd (saveEntry None ''2026-03-15'' ''4'' (Some ''Great hike'') example_state))
        ''2026-03-15''
      = Some \<lparr>entry_id = ''u1_2026-03-15'', entry_rating = Num 4, entry_note = ''Great hike''\<rparr>"
proof -
  have digits: "int_digits 4 = ''4''"
    by code_simp
  have exact: "\<bar>4 :: int\<bar> \<le> 2 ^ 53"
    by simp
  from saveEntry_cache_update [OF getCurrentUser_example(1) exact,
      where d = "''2026-03-15''" and r = "''4''" and n = "Some ''Great hike''"]
  show ?thesis by (simp add: digits)
qed

text \<open>
  Claim C6. \<open>saveEntry\<close> fails with the error "Must be logged in to save entries"
  (the specification's NotAuthenticatedError) exactly when nobody is logged in, and with
  the error of the rejected write (the WriteError) exactly when somebody is logged in and
  the write is rejected; whenever it fails, the cache and the viewed owner are what they
  were before the call.
\<close>

theorem saveEntry_failure:
  "(fst (saveEntry backend d r n w) = Inl (Error ''Must be logged in to save entries'')
      \<longleftrightarrow> getCurrentUser w = None)
   \<and> (fst (saveEntry backend d r n w) = Inl (FirebaseError code)
      \<longleftrightarrow> getCurrentUser w \<noteq> None \<and> backend = Some code)
   \<and> (\<forall>e. fst (saveEntry backend d r n w) = Inl e \<longrightarrow>
         (e = Error ''Must be logged in to save entries''
            \<or> (\<exists>c. backend = Some c \<and> e = FirebaseError c))
         \<and> getCurrentEntries (snd (saveEntry backend d r n w)) = getCurrentEntries w
         \<and> getViewingUserId (snd (saveEntry backend d r n w)) = getViewingUserId w)"
proof (cases "getCurrentUser w")
  case None
  have "saveEntry backend d r n w = (Inl (Error ''Must be logged in to save entries''), w)"
    by (rule saveEntry_logged_out [OF None])
  then show ?thesis
    by (simp add: None)
next
  case user: (Some user)
  show ?thesis
  proof (cases backend)
    case None
    have "fst (saveEntry backend d r n w) = Inr ()"
      by (simp add: None saveEntry_served [OF user])
    then show ?thesis
      by (simp add: None user)
  next
    case (Some c)
    have "saveEntry backend d r n w = (Inl (FirebaseError c), w)"
      unfolding Some by (rule saveEntry_rejected [OF user])
    then show ?thesis
      by (simp add: Some user)
  qed
qed

theorem saveEntry_failure_witness:
  "fst (saveEntry (Some ''permission-denied'') ''2026-03-15'' ''4'' (Some ''Great hike'')
         example_viewing) = Inl (FirebaseError ''permission-denied'')
   \<and> getCurrentEntries
        (snd (saveEntry (Some ''permission-denied'') ''2026-03-15'' ''4'' (Some ''Great hike'')
               example_viewing)) ''2026-03-15'' = None
   \<and> getViewingUserId
        (snd (saveEntry (Some ''permission-denied'') ''2026-03-15'' ''4'' (Some ''Great hike'')
               example_viewing)) = Some ''u1''
   \<and> fst (saveEntry None ''2026-03-15'' ''4'' (Some ''Great hike'')
         (example_viewing\<lparr>currentUser := None\<rparr>))
       = Inl (Error ''Must be logged in to save entries'')"
proof -
  note t = saveEntry_failure [of "Some ''permission-denied''" "''2026-03-15''" "''4''"
      "Some ''Great hike''" example_viewing "''permission-denied''"]
  have "getCurrentUser example_viewing \<noteq> None"
    by simp
  with t have failed:
    "fst (saveEntry (Some ''permission-denied'') ''2026-03-15'' ''4'' (Some ''Great hike'')
         example_viewing) = Inl (FirebaseError ''permission-denied'')"
    by blast
  with t have "getCurrentEntries
        (snd (saveEntry (Some ''permission-denied'') ''2026-03-15'' ''4'' (Some ''Great hike'')
               example_viewing)) = getCurrentEntries example_viewing"
    and "getViewingUserId
        (snd (saveEntry (Some ''permission-denied'') ''2026-03-15'' ''4'' (Some ''Great hike'')
               example_viewing)) = getViewingUserId example_viewing"
    by blast+
  moreover have "getCurrentEntries example_viewing ''2026-03-15'' = None"
    and "getViewingUserId example_viewing = Some ''u1''"
    by (simp_all add: example_viewing_def getCurrentEntries_def getViewingUserId_def)
  moreover have "getCurrentUser (example_viewing\<lparr>currentUser := None\<rparr>) = None"
    by (simp add: getCurrentUser_def example_viewing_def example_state_def)
  with saveEntry_failure [of None "''2026-03-15''" "''4''"
      "Some ''Great hike''" "example_viewing\<lparr>currentUser := None\<rparr>" "''x''"]
  have "fst (saveEntry None ''2026-03-15'' ''4'' (Some ''Great hike'')
         (example_viewing\<lparr>currentUser := None\<rparr>))
       = Inl (Error ''Must be logged in to save entries'')"
    by blast
  ultimately show ?thesis
    using failed by simp
qed

text \<open>
  Claim C7. \<open>loadUserEntries\<close> fails, with the error of the rejected query (the
  specification's FetchError), exactly when Firestore rejects the query; the cache and
  the viewed owner are then what they were before the call.
\<close>

theorem loadUserEntries_failure:
  "(fst (loadUserEntries backend owner w) = Inl (FirebaseError code) \<longleftrightarrow> backend = Some code)
   \<and> (\<forall>e. fst (loadUserEntries backend owner w) = Inl e \<longrightarrow>
         (\<exists>c. backend = Some c \<and> e = FirebaseError c)
         \<and> getCurrentEntries (snd (loadUserEntries backend owner w)) = getCurrentEntries w
         \<and> getViewingUserId (snd (loadUserEntries backend owner w)) = getViewingUserId w)"
proof (cases backend)
  case None
  show ?thesis
    by (simp add: None loadUserEntries_served)
next
  case (Some c)
  show ?thesis
    by (auto simp: Some loadUserEntries_rejected)
qed

theorem loadUserEntries_failure_witness:
  "fst (loadUserEntries (Some ''unavailable'') ''u2'' example_viewing)
     = Inl (FirebaseError ''unavailable'')
   \<and> getCurrentEntries (snd (loadUserEntries (Some ''unavailable'') ''u2'' example_viewing))
        ''2026-01-01''
      = Some \<lparr>entry_id = ''u1_2026-01-01'', entry_rating = Num 5, entry_note = []\<rparr>
   \<and> getViewingUserId (snd (loadUserEntries (Some ''unavailable'') ''u2'' example_viewing))
      = Some ''u1''"
proof -
  note t = loadUserEntries_failure [of "Some ''unavailable''" "''u2''" example_viewing
      "''unavailable''"]
  from t have failed: "fst (loadUserEntries (Some ''unavailable'') ''u2'' example_viewing)
      = Inl (FirebaseError ''unavailable'')"
    by blast
  with t have "getCurrentEntries (snd (loadUserEntries (Some ''unavailable'') ''u2'' example_viewing))
        = getCurrentEntries example_viewing"
    and "getViewingUserId (snd (loadUserEntries (Some ''unavailable'') ''u2'' example_viewing))
        = getViewingUserId example_viewing"
    by blast+
  moreover have "getCurrentEntries example_viewing ''2026-01-01''
      = Some \<lparr>entry_id = ''u1_2026-01-01'', entry_rating = Num 5, entry_note = []\<rparr>"
    and "getViewingUserId example_viewing = Some ''u1''"
    by (simp_all add: example_viewing_def getCurrentEntries_def getViewingUserId_def)
  ultimately show ?thesis
    using failed by simp
qed

text \<open>
  Claim C10. A successful \<open>saveEntry\<close> for the date \<open>d\<close> leaves the cache entry of
  every other date and the viewed owner as they were.
\<close>

theorem saveEntry_frame:
  assumes "fst (saveEntry backend d r n w) = Inr u"
  shows "(\<forall>d'. d' \<noteq> d \<longrightarrow>
            getCurrentEntries (snd (saveEntry backend d r n w)) d' = getCurrentEntries w d')
    \<and> getViewingUserId (snd (saveEntry backend d r n w)) = getViewingUserId w"
proof (cases "getCurrentUser w")
  case None
  with assms show ?thesis
    by (simp add: saveEntry_logged_out)
next
  case (Some user)
  show ?thesis
  proof (cases backend)
    case None
    show ?thesis
      by (simp add: None saveEntry_served [OF Some] getCurrentEntries_def getViewingUserId_def)
  next
    case (Some c)
    with assms \<open>getCurrentUser w = Some user\<close> show ?thesis
      by (simp add: saveEntry_rejected)
  qed
qed

theorem saveEntry_frame_witness:
  "fst (saveEntry None ''2026-03-15'' ''4'' (Some ''Great hike'') example_viewing) = Inr ()
   \<and> getCurrentEntries
        (snd (saveEntry None ''2026-03-15'' ''4'' (Some ''Great hike'') example_viewing))
        ''2026-01-01''
      = Some \<lparr>entry_id = ''u1_2026-01-01'', entry_rating = Num 5, entry_note = []\<rparr>
   \<and> getViewingUserId
        (snd (saveEntry None ''2026-03-15'' ''4'' (Some ''Great hike'') example_viewing))
      = Some ''u1''"
proof -
  have ok: "fst (saveEntry None ''2026-03-15'' ''4'' (Some ''Great hike'') example_viewing)
      = Inr ()"
    by (simp add: saveEntry_served [OF getCurrentUser_example(2)])
  from saveEntry_frame [OF ok]
  have "getCurrentEntries
        (snd (saveEntry None ''2026-03-15'' ''4'' (Some ''Great hike'') example_viewing))
        ''2026-01-01'' = getCurrentEntries example_viewing ''2026-01-01''"
    and "getViewingUserId
        (snd (saveEntry None ''2026-03-15'' ''4'' (Some ''Great hike'') example_viewing))
      = getViewingUserId example_viewing"
    by simp_all
  moreover have "getCurrentEntries example_viewing ''2026-01-01''
      = Some \<lparr>entry_id = ''u1_2026-01-01'', entry_rating = Num 5, entry_note = []\<rparr>"
    and "getViewingUserId example_viewing = Some ''u1''"
    by (simp_all add: example_viewing_def getCurrentEntries_def getViewingUserId_def)
  ultimately show ?thesis
    using ok by simp
qed

section \<open>Sequences of operations\<close>

text \<open>
  \<^verbatim>\<open>auth.js\<close>: the callback \<open>onAuthChange\<close> registers stores the user the SDK reports,
  \<^verbatim>\<open>currentUser = user\<close>.
\<close>

definition onAuthChange :: "firebase_user option \<Rightarrow> app_state \<Rightarrow> app_state" where
  "onAuthChange user w = w\<lparr>currentUser := user\<rparr>"

text \<open>
  A sequence of operations on the modules, each of them served by the backend: a change
  of the logged-in user, a load, a save. \<open>run\<close> is \<open>None\<close> when one of them fails.
\<close>

datatype operation =
  AuthChange "firebase_user option"
| Load string
| Save string string "string option"

fun run :: "operation list \<Rightarrow> app_state \<Rightarrow> app_state option" where
  "run [] w = Some w"
| "run (AuthChange user # ops) w = run ops (onAuthChange user w)"
| "run (Load owner # ops) w =
     (case loadUserEntries None owner w of
        (Inl error, w') \<Rightarrow> None
      | (Inr es, w') \<Rightarrow> run ops w')"
| "run (Save d r n # ops) w =
     (case saveEntry None d r n w of
        (Inl error, w') \<Rightarrow> None
      | (Inr u, w') \<Rightarrow> run ops w')"





text \<open>The modules as they are when loaded, on a given collection.\<close>

definition initial_state :: "collection \<Rightarrow> app_state" where
  "initial_state docs =
     \<lparr>currentEntries = Map.empty, viewingUserId = None, currentUser = None,
      auth_currentUser = None, entries = docs\<rparr>"


lemma fst_setDoc_write:
  "map fst (setDoc_write i x docs)
     = (if i \<in> fst ` set docs then map fst docs else map fst docs @ [i])"
proof -
  have "map fst (map (\<lambda>(j, y). if j = i then (j, x) else (j, y)) docs) = map fst docs"
    by (induction docs) auto
  then show ?thesis
    by (simp add: setDoc_write_def)
qed

lemma distinct_setDoc_write:
  "distinct (map fst docs) \<Longrightarrow> distinct (map fst (setDoc_write i x docs))"
  by (simp add: fst_setDoc_write)









subsection \<open>The composite key\<close>

text \<open>
  The code keeps the storage at one entry for each owner and date: \<open>saveEntry\<close> names
  the document by owner and date, so a collection written by \<open>saveEntry\<close> alone has
  composite keys, and such a collection has at most one entry for each owner and date.
\<close>

definition composite_keys :: "collection \<Rightarrow> bool" where
  "composite_keys docs \<longleftrightarrow>
     distinct (map fst docs) \<and> (\<forall>doc \<in> set docs. fst doc = userId (snd doc) @ ''_'' @ date (snd doc))"

lemma composite_keys_one_entry:
  assumes "composite_keys docs"
  shows "one_entry_per_owner_date docs"
  unfolding one_entry_per_owner_date_def
proof (intro ballI impI)
  fix p q
  assume p: "p \<in> set docs" and q: "q \<in> set docs"
    and same: "userId (snd p) = userId (snd q) \<and> date (snd p) = date (snd q)"
  with assms have "fst p = fst q"
    by (simp add: composite_keys_def)
  moreover from assms have "distinct (map fst docs)"
    by (simp add: composite_keys_def)
  ultimately have "snd p = snd q"
    using p q by (metis eq_key_imp_eq_value prod.collapse)
  with \<open>fst p = fst q\<close> show "p = q"
    by (simp add: prod_eq_iff)
qed

lemma set_setDoc_write:
  "set (setDoc_write i x docs) \<subseteq> insert (i, x) (set docs)"
  by (auto simp: setDoc_write_def split: if_splits)

lemma composite_keys_saveEntry:
  assumes "composite_keys (entries w)"
  shows "composite_keys (entries (snd (saveEntry backend d r n w)))"
proof (cases "getCurrentUser w")
  case None
  with assms show ?thesis
    by (simp add: saveEntry_logged_out)
next
  case (Some user)
  show ?thesis
  proof (cases backend)
    case None
    let ?x = "\<lparr>userId = uid user, date = d, rating = parseInt r, note_text = or_empty n\<rparr>"
    have "fst doc = userId (snd doc) @ ''_'' @ date (snd doc)"
      if "doc \<in> set (setDoc_write (uid user @ ''_'' @ d) ?x (entries w))" for doc
      using that set_setDoc_write [of "uid user @ ''_'' @ d" ?x "entries w"] assms
      by (auto simp: composite_keys_def)
    with assms show ?thesis
      by (simp add: None saveEntry_served [OF Some] composite_keys_def distinct_setDoc_write)
  next
    case (Some code)
    with assms \<open>getCurrentUser w = Some user\<close> show ?thesis
      by (simp add: saveEntry_rejected)
  qed
qed

section \<open>calendar.js: all entries, for export\<close>

text \<open>
  \<open>getAllEntries\<close> queries the whole collection by date and copies the four fields of
  every document, in the order of the snapshot.
\<close>

definition getAllEntries :: "string option \<Rightarrow> app_state \<Rightarrow> js_error + entry_data list" where
  "getAllEntries backend w =
     (case getDocs backend None (entries w) of
        Inl error \<Rightarrow> Inl error
      | Inr snapshot \<Rightarrow>
          Inr (map (\<lambda>(i, x). \<lparr>userId = userId x, date = date x, rating = rating x,
                               note_text = note_text x\<rparr>) snapshot))"

section \<open>export.js\<close>

text \<open>What \<open>downloadFile\<close> hands to the browser.\<close>

record download =
  content :: string
  filename :: string
  mimeType :: string

subsection \<open>CSV\<close>

text \<open>
  \<^verbatim>\<open>note.includes(c)\<close> for a one-character string, \<^verbatim>\<open>note.replace(/"/g, '""')\<close> as the
  replacement of every occurrence of a character, and \<^verbatim>\<open>array.join(sep)\<close>.
\<close>

definition string_includes :: "string \<Rightarrow> char \<Rightarrow> bool" where
  "string_includes s c \<longleftrightarrow> c \<in> set s"

primrec replace_all :: "char \<Rightarrow> string \<Rightarrow> string \<Rightarrow> string" where
  "replace_all c r [] = []"
| "replace_all c r (x # xs) = (if x = c then r else [x]) @ replace_all c r xs"

fun join :: "string \<Rightarrow> string list \<Rightarrow> string" where
  "join sep [] = []"
| "join sep [x] = x"
| "join sep (x # y # ys) = x @ sep @ join sep (y # ys)"

text \<open>
  One row of the export. \<^verbatim>\<open>entry.note || ''\<close> is the note; it is wrapped in double
  quotes, with every double quote doubled, when it has a comma or a double quote. The
  template literal prints the rating with \<open>ToString\<close>.
\<close>

definition escapedNote :: "string \<Rightarrow> string" where
  "escapedNote note_arg =
     (let n = or_empty (Some note_arg) in
      if string_includes n CHR '','' \<or> string_includes n (CHR 0x22)
      then [CHR 0x22] @ replace_all (CHR 0x22) [CHR 0x22, CHR 0x22] n @ [CHR 0x22]
      else n)"

definition csv_row :: "entry_data \<Rightarrow> string" where
  "csv_row entry =
     userId entry @ '','' @ date entry @ '','' @ Number_toString (rating entry) @ '',''
       @ escapedNote (note_text entry)"

definition csv_text :: "entry_data list \<Rightarrow> string" where
  "csv_text es = join [CHR 0x0A] (''userId,date,rating,note'' # map csv_row es)"

definition exportCSV :: "string option \<Rightarrow> app_state \<Rightarrow> js_error + download" where
  "exportCSV backend w =
     (case getAllEntries backend w of
        Inl error \<Rightarrow> Inl error
      | Inr es \<Rightarrow>
          Inr \<lparr>content = csv_text es, filename = ''daydicated-2026.csv'', mimeType = ''text/csv''\<rparr>)"

lemma replace_all_concat:
  "replace_all c r s = concat (map (\<lambda>x. if x = c then r else [x]) s)"
  by (induction s) simp_all

lemma filter_replace_all:
  "filter (\<lambda>x. x \<noteq> c) (replace_all c [c, c] s) = filter (\<lambda>x. x \<noteq> c) s"
  by (induction s) simp_all

text \<open>
  Claim C4. For every list of entries the text of the CSV export is the header row
  \<^verbatim>\<open>userId,date,rating,note\<close> and one row for each entry, in the order of the list, joined
  by line feeds. The note of a row is wrapped in double quotes, each of its double quotes
  doubled, exactly when it has a comma or a double quote, and is the note itself
  otherwise. Apart from double quotes every character of the note, a line feed included,
  is copied as it is.
\<close>

theorem csv_export_format:
  "csv_text es = join [CHR 0x0A] (''userId,date,rating,note'' # map csv_row es)
   \<and> length (''userId,date,rating,note'' # map csv_row es) = Suc (length es)
   \<and> csv_row e = userId e @ '','' @ date e @ '','' @ Number_toString (rating e) @ '',''
         @ escapedNote (note_text e)
   \<and> escapedNote n =
        (if CHR '','' \<in> set n \<or> CHR 0x22 \<in> set n
         then [CHR 0x22] @ concat (map (\<lambda>c. if c = CHR 0x22 then [CHR 0x22, CHR 0x22] else [c]) n)
                @ [CHR 0x22]
         else n)
   \<and> filter (\<lambda>c. c \<noteq> CHR 0x22) (escapedNote n) = filter (\<lambda>c. c \<noteq> CHR 0x22) n
   \<and> (case getAllEntries backend w of
         Inl error \<Rightarrow> exportCSV backend w = Inl error
       | Inr all_entries \<Rightarrow>
           map_sum id content (exportCSV backend w) = Inr (csv_text all_entries))"
proof -
  have "escapedNote n =
        (if CHR '','' \<in> set n \<or> CHR 0x22 \<in> set n
         then [CHR 0x22] @ concat (map (\<lambda>c. if c = CHR 0x22 then [CHR 0x22, CHR 0x22] else [c]) n)
                @ [CHR 0x22]
         else n)"
    by (simp add: escapedNote_def or_empty_def string_includes_def replace_all_concat)
  moreover have "filter (\<lambda>c. c \<noteq> CHR 0x22) (escapedNote n) = filter (\<lambda>c. c \<noteq> CHR 0x22) n"
    by (simp add: escapedNote_def or_empty_def string_includes_def filter_replace_all)
  moreover have "case getAllEntries backend w of
         Inl error \<Rightarrow> exportCSV backend w = Inl error
       | Inr all_entries \<Rightarrow>
           map_sum id content (exportCSV backend w) = Inr (csv_text all_entries)"
    by (simp add: exportCSV_def split: sum.splits)
  ultimately show ?thesis
    by (simp add: csv_text_def csv_row_def)
qed

text \<open>
  The specification's scenario: two entries, the second with a comma in its note; and a
  note with a line feed, which breaks the row in two.
\<close>

theorem csv_export_format_witness:
  "csv_text
     [\<lparr>userId = ''u1'', date = ''2026-01-01'', rating = Num 5, note_text = []\<rparr>,
      \<lparr>userId = ''u2'', date = ''2026-01-02'', rating = Num 3, note_text = ''ok, fine''\<rparr>]
   = ''userId,date,rating,note'' @ [CHR 0x0A] @ ''u1,2026-01-01,5,'' @ [CHR 0x0A]
       @ ''u2,2026-01-02,3,'' @ [CHR 0x22] @ ''ok, fine'' @ [CHR 0x22]
   \<and> escapedNote (''say '' @ [CHR 0x22] @ ''hi'' @ [CHR 0x22])
       = [CHR 0x22] @ ''say '' @ [CHR 0x22, CHR 0x22] @ ''hi'' @ [CHR 0x22, CHR 0x22, CHR 0x22]
   \<and> escapedNote (''a'' @ [CHR 0x0A] @ ''b'') = ''a'' @ [CHR 0x0A] @ ''b''"
proof -
  have "Number_toString (Num 5) = ''5''" "Number_toString (Num 3) = ''3''"
    by code_simp+
  then show ?thesis
    by (simp add: csv_export_format)
qed

subsection \<open>JSON\<close>

text \<open>
  The values \<^verbatim>\<open>JSON.stringify\<close> prints and \<^verbatim>\<open>JSON.parse\<close> builds. An object is the list
  of its properties in the order of their creation, each key once.
\<close>

datatype json =
  JNull
| JBool bool
| JNumber jsnum
| JString string
| JArray "json list"
| JObject "(string \<times> json) list"

text \<open>
  \<open>QuoteJSONString\<close> of ECMA-262: the two-character escapes for backspace, tab, line
  feed, form feed, carriage return, the double quote and the backslash; \<^verbatim>\<open>\u00XX\<close>, in
  lower-case hexadecimal, for the other code units below 0x20; every other code unit as
  it is.
\<close>

definition hex_digit :: "nat \<Rightarrow> char" where
  "hex_digit d = (if d < 10 then char_of (48 + d) else char_of (87 + d))"

definition UnicodeEscape :: "char \<Rightarrow> string" where
  "UnicodeEscape c =
     (let n = (of_char c :: nat) in
      [CHR 0x5C, CHR ''u'', hex_digit (n div 4096 mod 16), hex_digit (n div 256 mod 16),
       hex_digit (n div 16 mod 16), hex_digit (n mod 16)])"

definition quote_char :: "char \<Rightarrow> string" where
  "quote_char c =
     (if c = CHR 0x08 then [CHR 0x5C, CHR ''b'']
      else if c = CHR 0x09 then [CHR 0x5C, CHR ''t'']
      else if c = CHR 0x0A then [CHR 0x5C, CHR ''n'']
      else if c = CHR 0x0C then [CHR 0x5C, CHR ''f'']
      else if c = CHR 0x0D then [CHR 0x5C, CHR ''r'']
      else if c = CHR 0x22 then [CHR 0x5C, CHR 0x22]
      else if c = CHR 0x5C then [CHR 0x5C, CHR 0x5C]
      else if (of_char c :: nat) < 32 then UnicodeEscape c
      else [c])"

definition QuoteJSONString :: "string \<Rightarrow> string" where
  "QuoteJSONString s = [CHR 0x22] @ concat (map quote_char s) @ [CHR 0x22]"

text \<open>
  \<open>SerializeJSONProperty\<close> with its two states, the gap and the current indent. NaN is
  printed as \<^verbatim>\<open>null\<close>. With a gap, the elements of an array and the properties of an
  object stand on lines of their own, indented by one gap more than the brackets.
\<close>

fun SerializeJSONProperty :: "string \<Rightarrow> string \<Rightarrow> json \<Rightarrow> string" where
  "SerializeJSONProperty gap indent JNull = ''null''"
| "SerializeJSONProperty gap indent (JBool b) = (if b then ''true'' else ''false'')"
| "SerializeJSONProperty gap indent (JNumber x) =
     (case x of NaN \<Rightarrow> ''null'' | Num n \<Rightarrow> Number_toString (Num n))"
| "SerializeJSONProperty gap indent (JString s) = QuoteJSONString s"
| "SerializeJSONProperty gap indent (JArray vs) =
     (if vs = [] then ''[]''
      else if gap = [] then ''['' @ join '','' (map (SerializeJSONProperty gap (indent @ gap)) vs) @ '']''
      else ''['' @ [CHR 0x0A] @ (indent @ gap)
           @ join ('','' @ [CHR 0x0A] @ (indent @ gap))
               (map (SerializeJSONProperty gap (indent @ gap)) vs)
           @ [CHR 0x0A] @ indent @ '']'')"
| "SerializeJSONProperty gap indent (JObject ms) =
     (if ms = [] then ''{}''
      else if gap = []
      then ''{'' @ join '',''
             (map (\<lambda>m. QuoteJSONString (fst m) @ '':''
                      @ SerializeJSONProperty gap (indent @ gap) (snd m)) ms) @ ''}''
      else ''{'' @ [CHR 0x0A] @ (indent @ gap)
           @ join ('','' @ [CHR 0x0A] @ (indent @ gap))
               (map (\<lambda>m. QuoteJSONString (fst m) @ '': ''
                      @ SerializeJSONProperty gap (indent @ gap) (snd m)) ms)
           @ [CHR 0x0A] @ indent @ ''}'')"

text \<open>\<^verbatim>\<open>JSON.stringify(value, null, 2)\<close>: the gap is two spaces.\<close>

definition JSON_stringify :: "json \<Rightarrow> string" where
  "JSON_stringify v = SerializeJSONProperty ''  '' [] v"

text \<open>
  The array of objects \<open>getAllEntries\<close> returns, as a value: each object has the
  properties \<^verbatim>\<open>userId\<close>, \<^verbatim>\<open>date\<close>, \<^verbatim>\<open>rating\<close>, \<^verbatim>\<open>note\<close>, created in this order.
\<close>

definition entry_value :: "entry_data \<Rightarrow> json" where
  "entry_value e =
     JObject [(''userId'', JString (userId e)), (''date'', JString (date e)),
              (''rating'', JNumber (rating e)), (''note'', JString (note_text e))]"

definition entries_value :: "entry_data list \<Rightarrow> json" where
  "entries_value es = JArray (map entry_value es)"

definition exportJSON :: "string option \<Rightarrow> app_state \<Rightarrow> js_error + download" where
  "exportJSON backend w =
     (case getAllEntries backend w of
        Inl error \<Rightarrow> Inl error
      | Inr es \<Rightarrow>
          Inr \<lparr>content = JSON_stringify (entries_value es), filename = ''daydicated-2026.json'',
               mimeType = ''application/json''\<rparr>)"

subsection \<open>JSON.parse\<close>

text \<open>
  \<^verbatim>\<open>JSON.parse\<close> is not called by the program; it is the host function the
  specification's round trip reads the exported text back with. The model follows the
  JSON grammar of ECMA-404: white space, the literals, strings with their escapes,
  numbers, arrays and objects. Two kinds of text are outside the values of this model and
  give \<open>None\<close> like a syntax error: a number with a fraction or an exponent, and an
  escape \<^verbatim>\<open>\uXXXX\<close> of a code unit above 0xFF.

  The recursion of the grammar is bounded by fuel; \<open>JSON_parse\<close> gives as much fuel
  as the text has characters.
\<close>

definition is_ws :: "char \<Rightarrow> bool" where
  "is_ws c \<longleftrightarrow> c = CHR 0x20 \<or> c = CHR 0x09 \<or> c = CHR 0x0A \<or> c = CHR 0x0D"

definition skip_ws :: "string \<Rightarrow> string" where
  "skip_ws s = dropWhile is_ws s"

definition parse_hex4 :: "string \<Rightarrow> nat option" where
  "parse_hex4 h =
     (if length h = 4 \<and> (\<forall>c \<in> set h. radix_digit 16 c) then Some (digits_value 16 h) else None)"

text \<open>The characters of a string after its opening quote, up to the closing quote.\<close>

fun parse_chars :: "string \<Rightarrow> (string \<times> string) option" where
  "parse_chars [] = None"
| "parse_chars [c] = (if c = CHR 0x22 then Some ([], []) else None)"
| "parse_chars (c # e # s) =
     (if c = CHR 0x22 then Some ([], e # s)
      else if c = CHR 0x5C then
        (if e = CHR ''u'' then
           (case parse_hex4 (take 4 s) of
              None \<Rightarrow> None
            | Some n \<Rightarrow>
                if n < 256
                then map_option (\<lambda>(str, rest). (char_of n # str, rest)) (parse_chars (drop 4 s))
                else None)
         else
           (case (if e = CHR 0x22 then Some (CHR 0x22)
                  else if e = CHR 0x5C then Some (CHR 0x5C)
                  else if e = CHR ''/'' then Some (CHR ''/'')
                  else if e = CHR ''b'' then Some (CHR 0x08)
                  else if e = CHR ''f'' then Some (CHR 0x0C)
                  else if e = CHR ''n'' then Some (CHR 0x0A)
                  else if e = CHR ''r'' then Some (CHR 0x0D)
                  else if e = CHR ''t'' then Some (CHR 0x09)
                  else None) of
              None \<Rightarrow> None
            | Some x \<Rightarrow> map_option (\<lambda>(str, rest). (x # str, rest)) (parse_chars s)))
      else if (of_char c :: nat) < 32 then None
      else map_option (\<lambda>(str, rest). (c # str, rest)) (parse_chars (e # s)))"

text \<open>
  A number: an optional minus sign, then \<^verbatim>\<open>0\<close> or a digit from 1 to 9 followed by
  digits.
\<close>

definition parse_number :: "string \<Rightarrow> (jsnum \<times> string) option" where
  "parse_number s =
     (let (sign, s1) = (case s of [] \<Rightarrow> (1, s) | c # r \<Rightarrow> if c = CHR ''-'' then (- 1, r) else (1, s));
          ds = (case s1 of [] \<Rightarrow> []
                | c # r \<Rightarrow> if c = CHR ''0'' then [c] else takeWhile is_decimal_digit s1);
          rest = drop (length ds) s1
      in if ds = [] then None
         else case rest of
                [] \<Rightarrow> Some (Num (sign * int (digits_value 10 ds)), rest)
              | c # r \<Rightarrow>
                  if c = CHR ''.'' \<or> c = CHR ''e'' \<or> c = CHR ''E'' then None
                  else Some (Num (sign * int (digits_value 10 ds)), rest))"

text \<open>
  A property assigned to an object under construction: the value of an existing key is
  replaced where it stands, a new key is added at the end.
\<close>

definition set_property :: "string \<Rightarrow> json \<Rightarrow> (string \<times> json) list \<Rightarrow> (string \<times> json) list" where
  "set_property k v ms =
     (if k \<in> fst ` set ms then map (\<lambda>(k', v'). if k' = k then (k', v) else (k', v')) ms
      else ms @ [(k, v)])"

definition object_of :: "(string \<times> json) list \<Rightarrow> json" where
  "object_of ms = JObject (foldl (\<lambda>obj (k, v). set_property k v obj) [] ms)"

fun parse_value :: "nat \<Rightarrow> string \<Rightarrow> (json \<times> string) option"
  and parse_elements :: "nat \<Rightarrow> string \<Rightarrow> (json list \<times> string) option"
  and parse_members :: "nat \<Rightarrow> string \<Rightarrow> ((string \<times> json) list \<times> string) option"
where
  "parse_value 0 s = None"
| "parse_value (Suc fuel) s =
     (case skip_ws s of
        [] \<Rightarrow> None
      | c # r \<Rightarrow>
          if c = CHR ''n'' then (if take 3 r = ''ull'' then Some (JNull, drop 3 r) else None)
          else if c = CHR ''t'' then (if take 3 r = ''rue'' then Some (JBool True, drop 3 r) else None)
          else if c = CHR ''f'' then (if take 4 r = ''alse'' then Some (JBool False, drop 4 r) else None)
          else if c = CHR 0x22 then map_option (\<lambda>(str, rest). (JString str, rest)) (parse_chars r)
          else if c = CHR ''['' then
            (case skip_ws r of
               [] \<Rightarrow> None
             | c' # r' \<Rightarrow>
                 if c' = CHR '']'' then Some (JArray [], r')
                 else map_option (\<lambda>(vs, rest). (JArray vs, rest)) (parse_elements fuel r))
          else if c = CHR ''{'' then
            (case skip_ws r of
               [] \<Rightarrow> None
             | c' # r' \<Rightarrow>
                 if c' = CHR ''}'' then Some (JObject [], r')
                 else map_option (\<lambda>(ms, rest). (object_of ms, rest)) (parse_members fuel r))
          else map_option (\<lambda>(x, rest). (JNumber x, rest)) (parse_number (c # r)))"
| "parse_elements 0 s = None"
| "parse_elements (Suc fuel) s =
     (case parse_value fuel s of
        None \<Rightarrow> None
      | Some (v, rest) \<Rightarrow>
          (case skip_ws rest of
             [] \<Rightarrow> None
           | c # r \<Rightarrow>
               if c = CHR '','' then map_option (\<lambda>(vs, rest'). (v # vs, rest')) (parse_elements fuel r)
               else if c = CHR '']'' then Some ([v], r)
               else None))"
| "parse_members 0 s = None"
| "parse_members (Suc fuel) s =
     (case skip_ws s of
        [] \<Rightarrow> None
      | c # r \<Rightarrow>
          if c \<noteq> CHR 0x22 then None
          else
            (case parse_chars r of
               None \<Rightarrow> None
             | Some (k, rest) \<Rightarrow>
                 (case skip_ws rest of
                    [] \<Rightarrow> None
                  | c' # r' \<Rightarrow>
                      if c' \<noteq> CHR '':'' then None
                      else
                        (case parse_value fuel r' of
                           None \<Rightarrow> None
                         | Some (v, rest') \<Rightarrow>
                             (case skip_ws rest' of
                                [] \<Rightarrow> None
                              | c'' # r'' \<Rightarrow>
                                  if c'' = CHR '','' then
                                    map_option (\<lambda>(ms, rest''). ((k, v) # ms, rest''))
                                      (parse_members fuel r'')
                                  else if c'' = CHR ''}'' then Some ([(k, v)], r'')
                                  else None)))))"

definition JSON_parse :: "string \<Rightarrow> json option" where
  "JSON_parse text =
     (case parse_value (length text) text of
        None \<Rightarrow> None
      | Some (v, rest) \<Rightarrow> if skip_ws rest = [] then Some v else None)"

lemma skip_ws_simps:
  "skip_ws (CHR 0x0A # s) = skip_ws s"
  "skip_ws (CHR 0x20 # s) = skip_ws s"
  "\<not> is_ws c \<Longrightarrow> skip_ws (c # s) = c # s"
  "skip_ws [] = []"
  by (simp_all add: skip_ws_def is_ws_def)

lemma is_ws_simps:
  "\<not> is_ws (CHR 0x22)" "\<not> is_ws CHR '',''" "\<not> is_ws CHR '':''" "\<not> is_ws CHR '']''"
  "\<not> is_ws CHR ''}''" "\<not> is_ws CHR ''[''" "\<not> is_ws CHR ''{''" "\<not> is_ws CHR ''-''"
  by (simp_all add: is_ws_def)

lemma is_decimal_digit_not_ws: "is_decimal_digit c \<Longrightarrow> \<not> is_ws c"
  by (auto simp: is_decimal_digit_def is_ws_def)

lemma parse_chars_plain:
  assumes "c \<noteq> CHR 0x22" "c \<noteq> CHR 0x5C" "\<not> (of_char c :: nat) < 32" "t \<noteq> []"
  shows "parse_chars (c # t) = map_option (\<lambda>(str, rest). (c # str, rest)) (parse_chars t)"
  using assms by (cases t) simp_all

lemma parse_chars_escape:
  "parse_chars (CHR 0x5C # CHR ''b'' # t) = map_option (\<lambda>(str, rest). (CHR 0x08 # str, rest)) (parse_chars t)"
  "parse_chars (CHR 0x5C # CHR ''t'' # t) = map_option (\<lambda>(str, rest). (CHR 0x09 # str, rest)) (parse_chars t)"
  "parse_chars (CHR 0x5C # CHR ''n'' # t) = map_option (\<lambda>(str, rest). (CHR 0x0A # str, rest)) (parse_chars t)"
  "parse_chars (CHR 0x5C # CHR ''f'' # t) = map_option (\<lambda>(str, rest). (CHR 0x0C # str, rest)) (parse_chars t)"
  "parse_chars (CHR 0x5C # CHR ''r'' # t) = map_option (\<lambda>(str, rest). (CHR 0x0D # str, rest)) (parse_chars t)"
  "parse_chars (CHR 0x5C # CHR 0x22 # t) = map_option (\<lambda>(str, rest). (CHR 0x22 # str, rest)) (parse_chars t)"
  "parse_chars (CHR 0x5C # CHR 0x5C # t) = map_option (\<lambda>(str, rest). (CHR 0x5C # str, rest)) (parse_chars t)"
  by simp_all

lemma digit_value_hex_digit: "d < 16 \<Longrightarrow> digit_value (hex_digit d) = Some d"
  by (auto simp: digit_value_def hex_digit_def)

lemma radix_digit_hex_digit: "d < 16 \<Longrightarrow> radix_digit 16 (hex_digit d)"
  by (simp add: radix_digit_def digit_value_hex_digit)

lemma parse_hex4_UnicodeEscape:
  assumes "n < 256"
  shows "parse_hex4 [hex_digit (n div 4096 mod 16), hex_digit (n div 256 mod 16),
      hex_digit (n div 16 mod 16), hex_digit (n mod 16)] = Some n"
proof -
  from assms have "n div 4096 mod 16 = 0" "n div 256 mod 16 = 0" "n div 16 mod 16 = n div 16"
    by simp_all
  moreover have "16 * (n div 16) + n mod 16 = n"
    by simp
  ultimately show ?thesis
    by (simp add: parse_hex4_def radix_digit_hex_digit digits_value_def digit_value_hex_digit
        mult.commute)
qed

lemma parse_chars_unicode:
  assumes "(of_char c :: nat) < 32"
  shows "parse_chars (UnicodeEscape c @ t)
    = map_option (\<lambda>(str, rest). (c # str, rest)) (parse_chars t)"
proof -
  from assms have "(of_char c :: nat) < 256" by simp
  from parse_hex4_UnicodeEscape [OF this] show ?thesis
    by (simp add: UnicodeEscape_def Let_def)
qed

lemma parse_chars_quote_char:
  "parse_chars (quote_char c @ x # t)
     = map_option (\<lambda>(str, rest). (c # str, rest)) (parse_chars (x # t))"
proof (cases "(of_char c :: nat) < 32")
  case True
  then show ?thesis
    by (simp add: quote_char_def parse_chars_unicode)
next
  case False
  then have "c \<noteq> CHR 0x08" "c \<noteq> CHR 0x09" "c \<noteq> CHR 0x0A" "c \<noteq> CHR 0x0C" "c \<noteq> CHR 0x0D"
    by auto
  with False show ?thesis
    by (simp add: quote_char_def)
qed

lemma parse_chars_quoted:
  "parse_chars (concat (map quote_char s) @ CHR 0x22 # rest) = Some (s, rest)"
proof (induction s)
  case Nil
  show ?case by (cases rest) simp_all
next
  case (Cons c s)
  obtain x t where "concat (map quote_char s) @ CHR 0x22 # rest = x # t"
    by (cases "concat (map quote_char s) @ CHR 0x22 # rest") simp_all
  with Cons show ?case
    by (simp add: parse_chars_quote_char)
qed

lemma nat_digits_hd:
  "0 < n \<Longrightarrow> \<exists>c t. nat_digits n = c # t \<and> c \<noteq> CHR ''0'' \<and> is_decimal_digit c"
proof (induction n rule: nat_digits.induct)
  case (1 n)
  show ?case
  proof (cases "n < 10")
    case True
    have "digit_char n \<noteq> CHR ''0''"
    proof
      assume "digit_char n = CHR ''0''"
      then have "(of_char (digit_char n) :: nat) = of_char CHR ''0''"
        by simp
      with True "1.prems" show False
        by (simp add: of_char_digit_char)
    qed
    with True show ?thesis
      by (subst nat_digits.simps) (simp add: is_decimal_digit_digit_char)
  next
    case False
    then have "0 < n div 10" by simp
    from "1.IH" [OF False this] obtain c t where "nat_digits (n div 10) = c # t"
        "c \<noteq> CHR ''0''" "is_decimal_digit c"
      by blast
    with False show ?thesis
      by (subst nat_digits.simps) simp
  qed
qed

lemma digit_char_0: "digit_char 0 = CHR ''0''"
proof -
  have "(of_char (digit_char 0) :: nat) = of_char CHR ''0''"
    by (simp add: of_char_digit_char)
  then show ?thesis
    by (simp only: of_char_eq_iff)
qed

lemma nat_digits_0: "nat_digits 0 = ''0''"
  by (subst nat_digits.simps) (simp add: digit_char_0)

lemma takeWhile_nat_digits:
  "\<not> is_decimal_digit x \<Longrightarrow>
     takeWhile is_decimal_digit (nat_digits n @ x # r) = nat_digits n"
  using nat_digits_decimal [of n] by (simp add: takeWhile_append2)

lemma parse_unsigned:
  assumes "\<not> is_decimal_digit x"
  shows "(case nat_digits n @ x # r of [] \<Rightarrow> []
          | c # r' \<Rightarrow> if c = CHR ''0'' then [c]
                      else takeWhile is_decimal_digit (nat_digits n @ x # r)) = nat_digits n"
proof (cases "n = 0")
  case True
  then show ?thesis by (simp add: nat_digits_0)
next
  case False
  then obtain c t where "nat_digits n = c # t" "c \<noteq> CHR ''0''"
    using nat_digits_hd [of n] by auto
  then show ?thesis
    using takeWhile_nat_digits [OF assms, of n r] by simp
qed

lemma parse_number_int_digits:
  assumes "\<not> is_decimal_digit x" "x \<noteq> CHR ''.''" "x \<noteq> CHR ''e''" "x \<noteq> CHR ''E''"
  shows "parse_number (int_digits k @ x # r) = Some (Num k, x # r)"
proof (cases "k < 0")
  case False
  obtain c t where ct: "nat_digits (nat k) = c # t" "is_decimal_digit c"
    using nat_digits_not_Nil [of "nat k"] nat_digits_decimal [of "nat k"]
    by (cases "nat_digits (nat k)") auto
  then have "c \<noteq> CHR ''-''"
    by (auto simp: is_decimal_digit_def)
  with ct(1) have s: "(case nat_digits (nat k) @ x # r of [] \<Rightarrow> (1, nat_digits (nat k) @ x # r)
      | c # r' \<Rightarrow> if c = CHR ''-'' then (- 1, r') else (1, nat_digits (nat k) @ x # r))
      = (1::int, nat_digits (nat k) @ x # r)"
    by simp
  show ?thesis
    using False assms(2-)
    by (simp add: parse_number_def int_digits_def s parse_unsigned [OF assms(1)]
        nat_digits_not_Nil digits_value_nat_digits del: One_nat_def)
next
  case True
  then show ?thesis
    using assms(2-)
    by (simp add: parse_number_def int_digits_def parse_unsigned [OF assms(1)]
        nat_digits_not_Nil digits_value_nat_digits)
qed

text \<open>The text of one exported entry: an object printed at indent two.\<close>

lemma entry_text:
  "SerializeJSONProperty ''  '' ''  '' (entry_value e) =
     ''{'' @ [CHR 0x0A] @ ''    '' @ QuoteJSONString ''userId'' @ '': ''
       @ QuoteJSONString (userId e) @ '','' @ [CHR 0x0A] @ ''    ''
       @ QuoteJSONString ''date'' @ '': '' @ QuoteJSONString (date e) @ '','' @ [CHR 0x0A] @ ''    ''
       @ QuoteJSONString ''rating'' @ '': ''
       @ (case rating e of NaN \<Rightarrow> ''null'' | Num n \<Rightarrow> int_digits n) @ '','' @ [CHR 0x0A] @ ''    ''
       @ QuoteJSONString ''note'' @ '': '' @ QuoteJSONString (note_text e)
       @ [CHR 0x0A] @ ''  '' @ ''}''"
  by (simp add: entry_value_def Number_toString_def split: jsnum.splits)

lemma parse_value_skip:
  "parse_value fuel (CHR 0x0A # s) = parse_value fuel s"
  "parse_value fuel (CHR 0x20 # s) = parse_value fuel s"
  by (cases fuel; simp add: skip_ws_simps)+

lemma parse_members_skip:
  "parse_members fuel (CHR 0x0A # s) = parse_members fuel s"
  "parse_members fuel (CHR 0x20 # s) = parse_members fuel s"
  by (cases fuel; simp add: skip_ws_simps)+

lemma parse_value_string:
  "parse_value (Suc fuel) (QuoteJSONString s @ rest) = Some (JString s, rest)"
  by (simp add: QuoteJSONString_def skip_ws_simps is_ws_simps parse_chars_quoted)

lemma parse_value_number:
  "parse_value (Suc fuel) (int_digits k @ CHR '','' # rest) = Some (JNumber (Num k), CHR '','' # rest)"
proof -
  obtain c t where ct: "int_digits k = c # t" "c = CHR ''-'' \<or> is_decimal_digit c"
  proof (cases "k < 0")
    case True
    then show ?thesis
      using that by (simp add: int_digits_def)
  next
    case False
    then show ?thesis
      using that nat_digits_not_Nil [of "nat k"] nat_digits_decimal [of "nat k"]
      by (cases "nat_digits (nat k)") (auto simp: int_digits_def)
  qed
  from ct(2) have c: "\<not> is_ws c" "c \<noteq> CHR ''n''" "c \<noteq> CHR ''t''" "c \<noteq> CHR ''f''"
      "c \<noteq> CHR 0x22" "c \<noteq> CHR ''[''" "c \<noteq> CHR ''{''"
    by (auto simp: is_decimal_digit_def is_ws_def)
  have "parse_number (int_digits k @ CHR '','' # rest) = Some (Num k, CHR '','' # rest)"
    by (rule parse_number_int_digits) (simp_all add: is_decimal_digit_def)
  then have "parse_number (c # t @ CHR '','' # rest) = Some (Num k, CHR '','' # rest)"
    by (simp add: ct(1))
  with c show ?thesis
    by (simp add: ct(1) skip_ws_simps)
qed

lemma parse_members_step:
  assumes "parse_value fuel vt = Some (v, CHR '','' # r)"
  shows "parse_members (Suc fuel) (QuoteJSONString k @ CHR '':'' # vt)
    = map_option (\<lambda>(ms, rest). ((k, v) # ms, rest)) (parse_members fuel r)"
  using assms
  by (simp add: QuoteJSONString_def skip_ws_simps is_ws_simps parse_chars_quoted)

lemma parse_members_last:
  assumes "parse_value fuel vt = Some (v, CHR 0x0A # CHR 0x20 # CHR 0x20 # CHR ''}'' # r)"
  shows "parse_members (Suc fuel) (QuoteJSONString k @ CHR '':'' # vt) = Some ([(k, v)], r)"
  using assms
  by (simp add: QuoteJSONString_def skip_ws_simps is_ws_simps parse_chars_quoted)

declare parse_value.simps [simp del] parse_elements.simps [simp del] parse_members.simps [simp del]

lemma object_of_entry:
  "object_of [(''userId'', a), (''date'', b), (''rating'', c), (''note'', d)]
     = JObject [(''userId'', a), (''date'', b), (''rating'', c), (''note'', d)]"
  by (simp add: object_of_def set_property_def)

lemma parse_entry:
  assumes "rating e = Num k" "6 \<le> fuel"
  shows "parse_value fuel (SerializeJSONProperty ''  '' ''  '' (entry_value e) @ rest)
    = Some (entry_value e, rest)"
proof -
  define f where "f = fuel - 6"
  with assms(2) have fuel: "fuel = Suc (Suc (Suc (Suc (Suc (Suc f)))))"
    by arith
  let ?t4 = "QuoteJSONString ''note'' @ CHR '':'' # CHR 0x20 # QuoteJSONString (note_text e)
    @ CHR 0x0A # CHR 0x20 # CHR 0x20 # CHR ''}'' # rest"
  let ?t3 = "QuoteJSONString ''rating'' @ CHR '':'' # CHR 0x20 # int_digits k @ CHR '','' # CHR 0x0A
    # CHR 0x20 # CHR 0x20 # CHR 0x20 # CHR 0x20 # ?t4"
  let ?t2 = "QuoteJSONString ''date'' @ CHR '':'' # CHR 0x20 # QuoteJSONString (date e) @ CHR '',''
    # CHR 0x0A # CHR 0x20 # CHR 0x20 # CHR 0x20 # CHR 0x20 # ?t3"
  let ?t1 = "QuoteJSONString ''userId'' @ CHR '':'' # CHR 0x20 # QuoteJSONString (userId e) @ CHR '',''
    # CHR 0x0A # CHR 0x20 # CHR 0x20 # CHR 0x20 # CHR 0x20 # ?t2"
  have str: "parse_value (Suc n) (CHR 0x20 # QuoteJSONString s @ t) = Some (JString s, t)" for n s t
    by (simp add: parse_value_skip parse_value_string)
  have num: "parse_value (Suc n) (CHR 0x20 # int_digits k @ CHR '','' # t)
      = Some (JNumber (Num k), CHR '','' # t)" for n t
    by (simp add: parse_value_skip parse_value_number)
  have m4: "parse_members (Suc (Suc f)) ?t4 = Some ([(''note'', JString (note_text e))], rest)"
    by (rule parse_members_last [OF str])
  have m1: "parse_members (Suc (Suc (Suc (Suc (Suc f))))) ?t1
      = Some ([(''userId'', JString (userId e)), (''date'', JString (date e)),
               (''rating'', JNumber (Num k)), (''note'', JString (note_text e))], rest)"
    by (simp add: parse_members_step [OF str] parse_members_step [OF num] parse_members_skip m4)
  have shape: "SerializeJSONProperty ''  '' ''  '' (entry_value e) @ rest
      = CHR ''{'' # CHR 0x0A # CHR 0x20 # CHR 0x20 # CHR 0x20 # CHR 0x20 # ?t1"
    by (simp add: entry_text assms(1))
  have q: "skip_ws (QuoteJSONString s @ t) = CHR 0x22 # concat (map quote_char s) @ CHR 0x22 # t"
    for s t
    by (simp add: skip_ws_simps is_ws_simps QuoteJSONString_def)
  show ?thesis
    unfolding shape fuel
    by (subst parse_value.simps)
      (simp add: skip_ws_simps is_ws_simps q parse_members_skip m1 object_of_entry
        entry_value_def assms(1))
qed

lemma join_Cons: "xs \<noteq> [] \<Longrightarrow> join sep (x # xs) = x @ sep @ join sep xs"
  by (cases xs) simp_all

lemma length_join: "sum_list (map length xs) \<le> length (join sep xs)"
  by (induction sep xs rule: join.induct) simp_all

lemma parse_elements_entries:
  assumes "es \<noteq> []" "\<forall>e \<in> set es. \<exists>k. rating e = Num k" "length es + 6 \<le> fuel"
  shows "parse_elements fuel
      (CHR 0x0A # CHR 0x20 # CHR 0x20
         # join [CHR '','', CHR 0x0A, CHR 0x20, CHR 0x20] (map (SerializeJSONProperty ''  '' ''  '' \<circ> entry_value) es)
         @ CHR 0x0A # CHR '']'' # rest)
    = Some (map entry_value es, rest)"
  using assms
proof (induction es arbitrary: fuel rule: list_nonempty_induct)
  case (single e)
  then obtain f k where f: "fuel = Suc f" "6 \<le> f" and k: "rating e = Num k"
    by (cases fuel) auto
  show ?case
    unfolding f(1)
    by (subst parse_elements.simps)
      (simp add: parse_value_skip parse_entry [OF k f(2)] skip_ws_simps is_ws_simps)
next
  case (cons e es)
  then obtain f k where f: "fuel = Suc f" "6 \<le> f" "length es + 6 \<le> f" and k: "rating e = Num k"
    by (cases fuel) auto
  from cons.prems(1) have "\<forall>e \<in> set es. \<exists>k. rating e = Num k"
    by simp
  note IH = cons.IH [OF this f(3)]
  from cons.hyps have j: "join [CHR '','', CHR 0x0A, CHR 0x20, CHR 0x20]
        (map (SerializeJSONProperty ''  '' ''  '' \<circ> entry_value) (e # es))
      = SerializeJSONProperty ''  '' ''  '' (entry_value e) @ CHR '','' # CHR 0x0A # CHR 0x20 # CHR 0x20
        # join [CHR '','', CHR 0x0A, CHR 0x20, CHR 0x20] (map (SerializeJSONProperty ''  '' ''  '' \<circ> entry_value) es)"
    by (simp add: join_Cons)
  show ?case
    unfolding f(1) j
    by (subst parse_elements.simps)
      (simp add: parse_value_skip parse_entry [OF k f(2)] skip_ws_simps is_ws_simps IH)
qed

lemma length_entry_text: "2 \<le> length (SerializeJSONProperty ''  '' ''  '' (entry_value e))"
  by (simp add: entry_text)

lemma entries_text:
  "es \<noteq> [] \<Longrightarrow> JSON_stringify (entries_value es) =
     CHR ''['' # CHR 0x0A # CHR 0x20 # CHR 0x20
       # join [CHR '','', CHR 0x0A, CHR 0x20, CHR 0x20] (map (SerializeJSONProperty ''  '' ''  '' \<circ> entry_value) es)
       @ CHR 0x0A # CHR '']'' # []"
  by (simp add: JSON_stringify_def entries_value_def comp_def)

lemma JSON_round_trip_entries:
  assumes "\<forall>e \<in> set es. \<exists>k. rating e = Num k"
  shows "JSON_parse (JSON_stringify (entries_value es)) = Some (entries_value es)"
proof (cases "es = []")
  case True
  have "parse_value (Suc (Suc 0)) ''[]'' = Some (JArray [], [])"
    by (simp add: parse_value.simps skip_ws_simps is_ws_simps)
  then show ?thesis
    by (simp add: True JSON_parse_def JSON_stringify_def entries_value_def skip_ws_simps
        numeral_2_eq_2)
next
  case False
  let ?objs = "map (SerializeJSONProperty ''  '' ''  '' \<circ> entry_value) es"
  let ?j = "join [CHR '','', CHR 0x0A, CHR 0x20, CHR 0x20] ?objs"
  have "2 * length xs \<le> sum_list (map length
      (map (SerializeJSONProperty ''  '' ''  '' \<circ> entry_value) xs))" for xs
  proof (induction xs)
    case Nil
    show ?case by simp
  next
    case (Cons a xs)
    with length_entry_text [of a] show ?case by simp
  qed
  then have "2 * length es \<le> sum_list (map length ?objs)" .
  also have "\<dots> \<le> length ?j"
    by (rule length_join)
  finally have "length es + 1 \<le> length ?j"
    using False by (cases es) simp_all
  then have fuel: "length es + 6 \<le> length ?j + 5"
    by simp
  have len: "length (JSON_stringify (entries_value es)) = Suc (length ?j + 5)"
    by (simp add: entries_text [OF False])
  have first: "skip_ws (?j @ CHR 0x0A # CHR '']'' # [])
      = CHR ''{'' # tl (?j @ CHR 0x0A # CHR '']'' # [])"
  proof -
    obtain e es' where "es = e # es'"
      using False by (cases es) auto
    then have "?j = SerializeJSONProperty ''  '' ''  '' (entry_value e) @ (if es' = [] then [] else
        CHR '','' # CHR 0x0A # CHR 0x20 # CHR 0x20 # join [CHR '','', CHR 0x0A, CHR 0x20, CHR 0x20]
          (map (SerializeJSONProperty ''  '' ''  '' \<circ> entry_value) es'))"
      by (simp add: join_Cons)
    then show ?thesis
      by (simp add: entry_text skip_ws_simps is_ws_simps)
  qed
  have "parse_value (Suc (length ?j + 5)) (JSON_stringify (entries_value es))
      = Some (JArray (map entry_value es), [])"
    unfolding entries_text [OF False]
    by (subst parse_value.simps)
      (simp add: skip_ws_simps is_ws_simps first
        parse_elements_entries [OF False assms fuel])
  then show ?thesis
    unfolding JSON_parse_def len by (simp add: skip_ws_simps entries_value_def)
qed

text \<open>Different lists of entries are different values.\<close>

lemma entries_value_inject:
  "entries_value es = entries_value es' \<Longrightarrow> es = es'"
proof -
  have "inj entry_value"
    by (rule injI) (simp add: entry_value_def)
  then show "entries_value es = entries_value es' \<Longrightarrow> es = es'"
    by (simp add: entries_value_def inj_map_eq_map)
qed

text \<open>
  An entry whose rating is an integer, of those the host represents exactly.
\<close>

definition integer_rating :: "entry_data \<Rightarrow> bool" where
  "integer_rating e = (case rating e of NaN \<Rightarrow> False | Num k \<Rightarrow> \<bar>k\<bar> \<le> 2 ^ 53)"

text \<open>
  Claim C5, as stated, fails. A rating without digits is saved as NaN (see claim C3),
  \<open>getAllEntries\<close> returns it, \<^verbatim>\<open>JSON.stringify\<close> prints NaN as \<^verbatim>\<open>null\<close>, and the
  parsed list has the rating \<^verbatim>\<open>null\<close> where the exported list has NaN.
\<close>

theorem exportJSON_round_trip_counterexample:
  "getAllEntries None
     (snd (saveEntry None ''2026-03-15'' ''abc'' (Some ''Great hike'')
        (onAuthChange (Some \<lparr>uid = ''u1''\<rparr>) (initial_state []))))
     = Inr [\<lparr>userId = ''u1'', date = ''2026-03-15'', rating = NaN, note_text = ''Great hike''\<rparr>]
   \<and> JSON_parse (JSON_stringify (entries_value
        [\<lparr>userId = ''u1'', date = ''2026-03-15'', rating = NaN, note_text = ''Great hike''\<rparr>]))
     = Some (JArray [JObject [(''userId'', JString ''u1''), (''date'', JString ''2026-03-15''),
                              (''rating'', JNull), (''note'', JString ''Great hike'')]])
   \<and> JSON_parse (JSON_stringify (entries_value
        [\<lparr>userId = ''u1'', date = ''2026-03-15'', rating = NaN, note_text = ''Great hike''\<rparr>]))
     \<noteq> Some (entries_value
        [\<lparr>userId = ''u1'', date = ''2026-03-15'', rating = NaN, note_text = ''Great hike''\<rparr>])"
  by code_simp

text \<open>
  Claim C5, amended. For every list of entries whose ratings are integers, the text
  \<open>exportJSON\<close> makes of the list parses back to the list: the same objects in the same
  order, each with the same \<^verbatim>\<open>userId\<close>, \<^verbatim>\<open>date\<close>, \<^verbatim>\<open>rating\<close> and \<^verbatim>\<open>note\<close>.
\<close>

theorem exportJSON_round_trip:
  assumes "\<forall>e \<in> set es. integer_rating e"
  shows "JSON_parse (JSON_stringify (entries_value es)) = Some (entries_value es)
    \<and> (getAllEntries backend w = Inr es \<longrightarrow>
          map_sum id content (exportJSON backend w) = Inr (JSON_stringify (entries_value es)))"
proof -
  have "\<exists>k. rating e = Num k" if "integer_rating e" for e
    using that by (cases "rating e") (simp_all add: integer_rating_def)
  with assms have "\<forall>e \<in> set es. \<exists>k. rating e = Num k"
    by blast
  then have "JSON_parse (JSON_stringify (entries_value es)) = Some (entries_value es)"
    by (rule JSON_round_trip_entries)
  then show ?thesis
    by (simp add: exportJSON_def)
qed

theorem exportJSON_round_trip_witness:
  "JSON_parse (JSON_stringify (entries_value (map snd (entries example_state))))
     = Some (entries_value (map snd (entries example_state)))
   \<and> map_sum id content (exportJSON None example_state)
     = Inr (JSON_stringify (entries_value (map snd (entries example_state))))"
proof -
  have "\<forall>e \<in> set (map snd (entries example_state)). integer_rating e"
    by (simp add: example_state_def integer_rating_def)
  moreover have "getAllEntries None example_state = Inr (map snd (entries example_state))"
    by code_simp
  ultimately show ?thesis
    using exportJSON_round_trip [of "map snd (entries example_state)" None example_state]
    by blast
qed

end
